theory Spec2Isabelle
  imports Main
begin

section \<open>The rules engine and the live game object\<close>

text \<open>
  The component \<^verbatim>\<open>ChessGame\<close> drives the library chess.js, which is not part of the
  repository. Its operations are therefore parameters of the model: a record of functions over
  an arbitrary type \<open>'p\<close> of positions. Moves are identified with their algebraic notation
  (the strings that \<^verbatim>\<open>moves()\<close> returns and \<^verbatim>\<open>move()\<close> accepts);
  \<open>move\<close> returns \<open>None\<close> where chess.js throws on a move it does not accept.
  The move objects of \<^verbatim>\<open>moves({ verbose: true })\<close> are identified with their field
  \<^verbatim>\<open>san\<close>, which is what \<^verbatim>\<open>getEndgameBonus\<close> reads of them.
  Squares are named as chess.js names them: \<open>''a1''\<close> to \<open>''h8''\<close>.
\<close>

datatype color = White | Black

datatype ptype = Pawn | Knight | Bishop | Rook | Queen | King

record piece =
  ptype :: ptype
  pcolor :: color

record 'p rules =
  moves :: "'p \<Rightarrow> string list"
  move :: "'p \<Rightarrow> string \<Rightarrow> 'p option"
  get :: "'p \<Rightarrow> string \<Rightarrow> piece option"
  isCheck :: "'p \<Rightarrow> bool"
  isCheckmate :: "'p \<Rightarrow> bool"
  isDraw :: "'p \<Rightarrow> bool"
  isGameOver :: "'p \<Rightarrow> bool"

text \<open>
  A \<^verbatim>\<open>Chess\<close> object is mutable: \<^verbatim>\<open>move\<close> pushes the position it leaves on the
  object's history, \<^verbatim>\<open>undo\<close> pops it (and does nothing on an empty history), and
  \<^verbatim>\<open>new Chess(position.fen())\<close> builds a fresh object on the same position with an empty
  history. The model passes the object explicitly.
\<close>

record 'p chess =
  current :: 'p
  history :: "'p list"

definition chess_move :: "'p rules \<Rightarrow> 'p chess \<Rightarrow> string \<Rightarrow> 'p chess option" where
  "chess_move E g m =
     (case move E (current g) m of
        None \<Rightarrow> None
      | Some p \<Rightarrow> Some \<lparr>current = p, history = current g # history g\<rparr>)"

definition chess_undo :: "'p chess \<Rightarrow> 'p chess" where
  "chess_undo g =
     (case history g of
        [] \<Rightarrow> g
      | p # ps \<Rightarrow> \<lparr>current = p, history = ps\<rparr>)"

definition chess_copy :: "'p chess \<Rightarrow> 'p chess" where
  "chess_copy g = \<lparr>current = current g, history = []\<rparr>"

definition square :: "nat \<Rightarrow> nat \<Rightarrow> string" where
  \<comment> \<open>\<^verbatim>\<open>String.fromCharCode(97 + i) + (j + 1)\<close>, for \<open>j < 9\<close>\<close>
  "square i j = [char_of (97 + i), char_of (48 + (j + 1))]"

definition board :: "'p rules \<Rightarrow> 'p \<Rightarrow> piece option list list" where
  \<comment> \<open>\<^verbatim>\<open>board()\<close>: the rows from rank 8 down to rank 1, each from file a to file h\<close>
  "board E p = map (\<lambda>j. map (\<lambda>i. get E p (square i j)) [0..<8]) (rev [0..<8])"

section \<open>Configuration tables\<close>

datatype difficulty = Easy | Intermediate | Hard

fun difficultyDepth :: "difficulty \<Rightarrow> nat" where
  "difficultyDepth Easy = 1"
| "difficultyDepth Intermediate = 2"
| "difficultyDepth Hard = 3"

record pattern =
  pattern_name :: string
  pattern_pieces :: "string list"

fun endgamePatterns :: "difficulty \<Rightarrow> pattern list" where
  "endgamePatterns Easy =
     [\<lparr>pattern_name = ''rook_king_mate'', pattern_pieces = [''k'', ''r'', ''K'']\<rparr>,
      \<lparr>pattern_name = ''queen_mate'', pattern_pieces = [''k'', ''q'', ''K'']\<rparr>]"
| "endgamePatterns Intermediate =
     [\<lparr>pattern_name = ''two_bishops_mate'', pattern_pieces = [''k'', ''b'', ''b'', ''K'']\<rparr>,
      \<lparr>pattern_name = ''rook_bishop_mate'', pattern_pieces = [''k'', ''r'', ''b'', ''K'']\<rparr>]"
| "endgamePatterns Hard =
     [\<lparr>pattern_name = ''queen_knight_mate'', pattern_pieces = [''k'', ''q'', ''n'', ''K'']\<rparr>,
      \<lparr>pattern_name = ''rook_knight_mate'', pattern_pieces = [''k'', ''r'', ''n'', ''K'']\<rparr>]"

definition str_includes :: "string \<Rightarrow> string \<Rightarrow> bool" where
  \<comment> \<open>\<^verbatim>\<open>s.includes(t)\<close>: \<open>t\<close> occurs in \<open>s\<close> as a contiguous substring\<close>
  "str_includes s t = list_ex (\<lambda>k. take (length t) (drop k s) = t) [0..<Suc (length s)]"

section \<open>The evaluator\<close>

fun pieceValues :: "ptype \<Rightarrow> int" where
  "pieceValues Pawn = 100"
| "pieceValues Knight = 320"
| "pieceValues Bishop = 330"
| "pieceValues Rook = 500"
| "pieceValues Queen = 900"
| "pieceValues King = 20000"

definition pawnPositionBonus :: "int list list" where
  "pawnPositionBonus =
     [[0,  0,  0,  0,  0,  0,  0,  0],
      [50, 50, 50, 50, 50, 50, 50, 50],
      [10, 10, 20, 30, 30, 20, 10, 10],
      [5,  5, 10, 25, 25, 10,  5,  5],
      [0,  0,  0, 20, 20,  0,  0,  0],
      [5, -5,-10,  0,  0,-10, -5,  5],
      [5, 10, 10,-20,-20, 10, 10,  5],
      [0,  0,  0,  0,  0,  0,  0,  0]]"

definition squareValue :: "'p rules \<Rightarrow> 'p \<Rightarrow> nat \<Rightarrow> nat \<Rightarrow> int \<Rightarrow> int" where
  \<comment> \<open>the body of the inner loop of \<^verbatim>\<open>evaluateBoard\<close>: the new \<^verbatim>\<open>total\<close> (written \<open>tot\<close>)\<close>
  "squareValue E p i j tot =
     (case get E p (square i j) of
        None \<Rightarrow> tot
      | Some pc \<Rightarrow>
          let value = pieceValues (ptype pc);
              value = (if ptype pc = Pawn
                       then value + pawnPositionBonus ! (if pcolor pc = White then 7 - j else j) ! i
                       else value)
          in tot + value * (if pcolor pc = White then 1 else - 1))"

definition evaluateBoard :: "'p rules \<Rightarrow> 'p \<Rightarrow> int" where
  "evaluateBoard E p =
     (let tot = fold (\<lambda>i tot. fold (\<lambda>j tot. squareValue E p i j tot) [0..<8] tot)
                       [0..<8] 0;
          tot = (if isCheck E p then tot + 50 else tot);
          tot = (if isCheckmate E p then tot + 10000 else tot);
          tot = (if isDraw E p then tot + 0 else tot)
      in tot)"

section \<open>The search\<close>

text \<open>
  \<^verbatim>\<open>minimax\<close> with its two loops over \<^verbatim>\<open>possibleMoves\<close>. The result is the score and
  the game object as the call leaves it; \<open>None\<close> is an exception thrown by
  \<^verbatim>\<open>position.move\<close>. The depth is a natural number: the callers pass 0, 1 or 2.
\<close>

function minimax :: "'p rules \<Rightarrow> 'p chess \<Rightarrow> nat \<Rightarrow> bool \<Rightarrow> int \<Rightarrow> int \<Rightarrow> (int \<times> 'p chess) option"
  and maxLoop :: "'p rules \<Rightarrow> 'p chess \<Rightarrow> nat \<Rightarrow> string list \<Rightarrow> int \<Rightarrow> int \<Rightarrow> int \<Rightarrow> (int \<times> 'p chess) option"
  and minLoop :: "'p rules \<Rightarrow> 'p chess \<Rightarrow> nat \<Rightarrow> string list \<Rightarrow> int \<Rightarrow> int \<Rightarrow> int \<Rightarrow> (int \<times> 'p chess) option"
where
  "minimax E position 0 maximizingPlayer alpha beta =
     Some (evaluateBoard E (current position), position)"
| "minimax E position (Suc d) maximizingPlayer alpha beta =
     (let possibleMoves = moves E (current position)
      in if maximizingPlayer
         then maxLoop E position d possibleMoves (- 9999) alpha beta
         else minLoop E position d possibleMoves 9999 alpha beta)"
| "maxLoop E position d [] maxEval alpha beta = Some (maxEval, position)"
| "maxLoop E position d (m # ms) maxEval alpha beta =
     (case chess_move E position m of
        None \<Rightarrow> None
      | Some position1 \<Rightarrow>
          (case minimax E position1 d False alpha beta of
             None \<Rightarrow> None
           | Some (evaluation, position2) \<Rightarrow>
               let position3 = chess_undo position2;
                   maxEval = max maxEval evaluation;
                   alpha = max alpha evaluation
               in if beta \<le> alpha then Some (maxEval, position3)
                  else maxLoop E position3 d ms maxEval alpha beta))"
| "minLoop E position d [] minEval alpha beta = Some (minEval, position)"
| "minLoop E position d (m # ms) minEval alpha beta =
     (case chess_move E position m of
        None \<Rightarrow> None
      | Some position1 \<Rightarrow>
          (case minimax E position1 d True alpha beta of
             None \<Rightarrow> None
           | Some (evaluation, position2) \<Rightarrow>
               let position3 = chess_undo position2;
                   minEval = min minEval evaluation;
                   beta = min beta evaluation
               in if beta \<le> alpha then Some (minEval, position3)
                  else minLoop E position3 d ms minEval alpha beta))"
  by pat_completeness auto
termination
  by (relation "inv_image (less_than <*lex*> less_than) (\<lambda>x. case x of
          Inl (E, g, d, mx, a, b) \<Rightarrow> (2 * d, 0)
        | Inr (Inl (E, g, d, ms, v, a, b)) \<Rightarrow> (2 * d + 1, length ms)
        | Inr (Inr (E, g, d, ms, v, a, b)) \<Rightarrow> (2 * d + 1, length ms))") auto


text \<open>
  The comparison search of the specification (section 8: the search with pruning disabled,
  exhaustive depth-limited minimax): \<^verbatim>\<open>minimax\<close> without its two
  \<^verbatim>\<open>if (beta <= alpha) break\<close> statements, so that \<^verbatim>\<open>alpha\<close> and
  \<^verbatim>\<open>beta\<close> are no longer read and are left out.
\<close>

function minimax_exhaustive :: "'p rules \<Rightarrow> 'p chess \<Rightarrow> nat \<Rightarrow> bool \<Rightarrow> (int \<times> 'p chess) option"
  and maxLoop_exhaustive :: "'p rules \<Rightarrow> 'p chess \<Rightarrow> nat \<Rightarrow> string list \<Rightarrow> int \<Rightarrow> (int \<times> 'p chess) option"
  and minLoop_exhaustive :: "'p rules \<Rightarrow> 'p chess \<Rightarrow> nat \<Rightarrow> string list \<Rightarrow> int \<Rightarrow> (int \<times> 'p chess) option"
where
  "minimax_exhaustive E position 0 maximizingPlayer =
     Some (evaluateBoard E (current position), position)"
| "minimax_exhaustive E position (Suc d) maximizingPlayer =
     (let possibleMoves = moves E (current position)
      in if maximizingPlayer
         then maxLoop_exhaustive E position d possibleMoves (- 9999)
         else minLoop_exhaustive E position d possibleMoves 9999)"
| "maxLoop_exhaustive E position d [] maxEval = Some (maxEval, position)"
| "maxLoop_exhaustive E position d (m # ms) maxEval =
     (case chess_move E position m of
        None \<Rightarrow> None
      | Some position1 \<Rightarrow>
          (case minimax_exhaustive E position1 d False of
             None \<Rightarrow> None
           | Some (evaluation, position2) \<Rightarrow>
               let position3 = chess_undo position2;
                   maxEval = max maxEval evaluation
               in maxLoop_exhaustive E position3 d ms maxEval))"
| "minLoop_exhaustive E position d [] minEval = Some (minEval, position)"
| "minLoop_exhaustive E position d (m # ms) minEval =
     (case chess_move E position m of
        None \<Rightarrow> None
      | Some position1 \<Rightarrow>
          (case minimax_exhaustive E position1 d True of
             None \<Rightarrow> None
           | Some (evaluation, position2) \<Rightarrow>
               let position3 = chess_undo position2;
                   minEval = min minEval evaluation
               in minLoop_exhaustive E position3 d ms minEval))"
  by pat_completeness auto
termination
  by (relation "inv_image (less_than <*lex*> less_than) (\<lambda>x. case x of
          Inl (E, g, d, mx) \<Rightarrow> (2 * d, 0)
        | Inr (Inl (E, g, d, ms, v)) \<Rightarrow> (2 * d + 1, length ms)
        | Inr (Inr (E, g, d, ms, v)) \<Rightarrow> (2 * d + 1, length ms))") auto

section \<open>The endgame heuristic\<close>

definition isEndgame :: "'p rules \<Rightarrow> 'p chess \<Rightarrow> bool" where
  "isEndgame E position =
     (let pieces = filter (\<lambda>piece. piece \<noteq> None) (concat (board E (current position)))
      in length pieces \<le> 10)"

definition pieceCount :: "'p rules \<Rightarrow> 'p \<Rightarrow> nat" where
  \<comment> \<open>the number of pieces on the board, as \<^verbatim>\<open>isEndgame\<close> counts them\<close>
  "pieceCount E p = length (filter (\<lambda>piece. piece \<noteq> None) (concat (board E p)))"

definition centralSquares :: "string list" where
  "centralSquares = [''d4'', ''d5'', ''e4'', ''e5'']"

definition patternBonus :: "'p rules \<Rightarrow> 'p chess \<Rightarrow> string \<Rightarrow> pattern \<Rightarrow> int \<Rightarrow> int" where
  \<comment> \<open>the body of \<^verbatim>\<open>patterns.forEach\<close>: the new \<^verbatim>\<open>bonus\<close>; an exception of
      \<^verbatim>\<open>tempGame.move\<close> is caught and leaves \<^verbatim>\<open>bonus\<close> as it is\<close>
  "patternBonus E position san pat bonus =
     (let tempGame = chess_copy position
      in case chess_move E tempGame san of
           None \<Rightarrow> bonus
         | Some tempGame \<Rightarrow>
             let bonus =
               (if str_includes (pattern_name pat) ''mate''
                then (if isCheckmate E (current tempGame) then bonus + 500
                      else if isCheck E (current tempGame) then bonus + 200
                      else bonus)
                else bonus)
             in fold (\<lambda>sq bonus.
                        case get E (current tempGame) sq of
                          None \<Rightarrow> bonus
                        | Some pc \<Rightarrow> if pcolor pc = Black then bonus + 50 else bonus)
                     centralSquares bonus)"

definition getEndgameBonus :: "'p rules \<Rightarrow> difficulty \<Rightarrow> 'p chess \<Rightarrow> string \<Rightarrow> int" where
  "getEndgameBonus E difficulty position san =
     (if \<not> isEndgame E position then 0
      else let patterns = endgamePatterns difficulty
           in fold (\<lambda>pat bonus. patternBonus E position san pat bonus) patterns 0)"

section \<open>The move selector\<close>

text \<open>
  The state of the component that \<^verbatim>\<open>makeAIMove\<close> reads and writes. The difficulty and
  the opening line chosen at the start of the game are inputs.
\<close>

record 'p component =
  game :: "'p chess"
  gameOver :: bool
  moveCount :: nat

definition rootValue :: "'p rules \<Rightarrow> difficulty \<Rightarrow> 'p chess \<Rightarrow> string \<Rightarrow> (int \<times> 'p chess) option" where
  \<comment> \<open>the first three statements of the loop of \<^verbatim>\<open>makeAIMove\<close>: \<^verbatim>\<open>value\<close> and the
      game object after \<^verbatim>\<open>game.undo()\<close>\<close>
  "rootValue E difficulty g m =
     (let depth = difficultyDepth difficulty
      in case chess_move E g m of
           None \<Rightarrow> None
         | Some g1 \<Rightarrow>
             (case minimax E g1 (depth - 1) False (- 10000) 10000 of
                None \<Rightarrow> None
              | Some (v, g2) \<Rightarrow>
                  let value = v + getEndgameBonus E difficulty g2 m
                  in Some (value, chess_undo g2)))"

fun rootLoop :: "'p rules \<Rightarrow> difficulty \<Rightarrow> 'p chess \<Rightarrow> string list \<Rightarrow> string option \<Rightarrow> int
    \<Rightarrow> (string option \<times> int \<times> 'p chess) option" where
  "rootLoop E difficulty g [] bestMove bestValue = Some (bestMove, bestValue, g)"
| "rootLoop E difficulty g (m # ms) bestMove bestValue =
     (case rootValue E difficulty g m of
        None \<Rightarrow> None
      | Some (value, g') \<Rightarrow>
          if value \<ge> bestValue then rootLoop E difficulty g' ms (Some m) value
          else rootLoop E difficulty g' ms bestMove bestValue)"

definition searchMove :: "'p rules \<Rightarrow> difficulty \<Rightarrow> 'p component \<Rightarrow> string list
    \<Rightarrow> (string option \<times> 'p component) option" where
  \<comment> \<open>\<^verbatim>\<open>makeAIMove\<close> from the comment "Use minimax with alpha-beta pruning" to its end\<close>
  "searchMove E difficulty st possibleMoves =
     (case rootLoop E difficulty (game st) possibleMoves None (- 9999) of
        None \<Rightarrow> None
      | Some (bestMove, bestValue, g) \<Rightarrow>
          (case bestMove of
             None \<Rightarrow> Some (None, st\<lparr>game := g\<rparr>)
           | Some bm \<Rightarrow>
               (case chess_move E g bm of
                  None \<Rightarrow> None
                | Some g' \<Rightarrow>
                    Some (Some bm, st\<lparr>game := chess_copy g', moveCount := moveCount st + 1\<rparr>))))"

definition makeAIMove :: "'p rules \<Rightarrow> difficulty \<Rightarrow> string list \<Rightarrow> 'p component
    \<Rightarrow> (string option \<times> 'p component) option" where
  \<comment> \<open>the result is the move played, if any, and the new state of the component;
      \<open>None\<close> is an exception that leaves \<^verbatim>\<open>makeAIMove\<close>\<close>
  "makeAIMove E difficulty selectedOpening st =
     (let possibleMoves = moves E (current (game st))
      in if isGameOver E (current (game st)) \<or> isDraw E (current (game st))
            \<or> length possibleMoves = 0
         then Some (None, st\<lparr>gameOver := True\<rparr>)
         else
           (case (if moveCount st < length selectedOpening
                  then chess_move E (game st) (selectedOpening ! moveCount st)
                  else None) of
              Some g' \<Rightarrow>
                Some (Some (selectedOpening ! moveCount st),
                      st\<lparr>game := chess_copy g', moveCount := moveCount st + 1\<rparr>)
            | None \<Rightarrow> searchMove E difficulty st possibleMoves))"


section \<open>The evaluator as the specification words it\<close>

text \<open>
  Section 4.2 of the specification: material signed by colour, for pawns a bonus from the
  piece-square table indexed by file and by rank from the pawn's own side, 50 for check, 10000
  for checkmate, 0 for a draw. The entries of the table are the source's; the specification
  gives its shape only. Ranks and files are counted from 0.
\<close>

fun spec_pieceValue :: "ptype \<Rightarrow> int" where
  "spec_pieceValue Pawn = 100"
| "spec_pieceValue Knight = 320"
| "spec_pieceValue Bishop = 330"
| "spec_pieceValue Rook = 500"
| "spec_pieceValue Queen = 900"
| "spec_pieceValue King = 20000"

fun spec_sign :: "color \<Rightarrow> int" where
  "spec_sign White = 1"
| "spec_sign Black = - 1"

fun own_rank :: "color \<Rightarrow> nat \<Rightarrow> nat" where
  "own_rank White j = j"
| "own_rank Black j = 7 - j"

definition spec_pawnBonus :: "color \<Rightarrow> nat \<Rightarrow> nat \<Rightarrow> int" where
  \<comment> \<open>the table is written with the pawn's eighth rank as its first row\<close>
  "spec_pawnBonus c i j = pawnPositionBonus ! (7 - own_rank c j) ! i"

definition spec_pieceTerm :: "piece \<Rightarrow> nat \<Rightarrow> nat \<Rightarrow> int" where
  "spec_pieceTerm pc i j =
     spec_pieceValue (ptype pc) * spec_sign (pcolor pc)
     + (if ptype pc = Pawn then spec_pawnBonus (pcolor pc) i j * spec_sign (pcolor pc) else 0)"

definition occupied :: "'p rules \<Rightarrow> 'p \<Rightarrow> (nat \<times> nat) set" where
  "occupied E p = Set.filter (\<lambda>(i, j). get E p (square i j) \<noteq> None) ({0..<8} \<times> {0..<8})"

definition spec_evaluate :: "'p rules \<Rightarrow> 'p \<Rightarrow> int" where
  "spec_evaluate E p =
     (\<Sum>(i, j) \<in> occupied E p. spec_pieceTerm (the (get E p (square i j))) i j)
     + (if isCheck E p then 50 else 0)
     + (if isCheckmate E p then 10000 else 0)
     + (if isDraw E p then 0 else 0)"

definition squareTerm :: "'p rules \<Rightarrow> 'p \<Rightarrow> nat \<Rightarrow> nat \<Rightarrow> int" where
  \<comment> \<open>auxiliary: what one square adds to the sum, 0 for an empty square\<close>
  "squareTerm E p i j =
     (case get E p (square i j) of None \<Rightarrow> 0 | Some pc \<Rightarrow> spec_pieceTerm pc i j)"

section \<open>What the search relies on from the rules engine\<close>

definition legal_playable :: "'p rules \<Rightarrow> bool" where
  \<comment> \<open>every move the engine enumerates in a position is accepted there\<close>
  "legal_playable E = (\<forall>p. \<forall>m \<in> set (moves E p). move E p m \<noteq> None)"

definition accepted_legal :: "'p rules \<Rightarrow> bool" where
  \<comment> \<open>every move the engine accepts in a position is one it enumerates there\<close>
  "accepted_legal E = (\<forall>p m. move E p m \<noteq> None \<longrightarrow> m \<in> set (moves E p))"

section \<open>The values the two searches compute\<close>

text \<open>
  Auxiliary functions for the proofs: the score of \<^verbatim>\<open>minimax\<close> and of the exhaustive
  search as functions of the position alone, without the game object. A move the engine does
  not accept is passed over; with \<open>legal_playable\<close> there is none.
\<close>

function ab :: "'p rules \<Rightarrow> 'p \<Rightarrow> nat \<Rightarrow> bool \<Rightarrow> int \<Rightarrow> int \<Rightarrow> int"
  and abMax :: "'p rules \<Rightarrow> 'p \<Rightarrow> nat \<Rightarrow> string list \<Rightarrow> int \<Rightarrow> int \<Rightarrow> int \<Rightarrow> int"
  and abMin :: "'p rules \<Rightarrow> 'p \<Rightarrow> nat \<Rightarrow> string list \<Rightarrow> int \<Rightarrow> int \<Rightarrow> int \<Rightarrow> int"
where
  "ab E p 0 mx a b = evaluateBoard E p"
| "ab E p (Suc d) mx a b =
     (if mx then abMax E p d (moves E p) (- 9999) a b else abMin E p d (moves E p) 9999 a b)"
| "abMax E p d [] v a b = v"
| "abMax E p d (m # ms) v a b =
     (case move E p m of
        None \<Rightarrow> abMax E p d ms v a b
      | Some q \<Rightarrow>
          let e = ab E q d False a b
          in if b \<le> max a e then max v e else abMax E p d ms (max v e) (max a e) b)"
| "abMin E p d [] v a b = v"
| "abMin E p d (m # ms) v a b =
     (case move E p m of
        None \<Rightarrow> abMin E p d ms v a b
      | Some q \<Rightarrow>
          let e = ab E q d True a b
          in if min b e \<le> a then min v e else abMin E p d ms (min v e) a (min b e))"
  by pat_completeness auto
termination
  by (relation "inv_image (less_than <*lex*> less_than) (\<lambda>x. case x of
          Inl (E, p, d, mx, a, b) \<Rightarrow> (2 * d, 0)
        | Inr (Inl (E, p, d, ms, v, a, b)) \<Rightarrow> (2 * d + 1, length ms)
        | Inr (Inr (E, p, d, ms, v, a, b)) \<Rightarrow> (2 * d + 1, length ms))") auto

function mm :: "'p rules \<Rightarrow> 'p \<Rightarrow> nat \<Rightarrow> bool \<Rightarrow> int"
  and mmMax :: "'p rules \<Rightarrow> 'p \<Rightarrow> nat \<Rightarrow> string list \<Rightarrow> int \<Rightarrow> int"
  and mmMin :: "'p rules \<Rightarrow> 'p \<Rightarrow> nat \<Rightarrow> string list \<Rightarrow> int \<Rightarrow> int"
where
  "mm E p 0 mx = evaluateBoard E p"
| "mm E p (Suc d) mx =
     (if mx then mmMax E p d (moves E p) (- 9999) else mmMin E p d (moves E p) 9999)"
| "mmMax E p d [] v = v"
| "mmMax E p d (m # ms) v =
     (case move E p m of
        None \<Rightarrow> mmMax E p d ms v
      | Some q \<Rightarrow> mmMax E p d ms (max v (mm E q d False)))"
| "mmMin E p d [] v = v"
| "mmMin E p d (m # ms) v =
     (case move E p m of
        None \<Rightarrow> mmMin E p d ms v
      | Some q \<Rightarrow> mmMin E p d ms (min v (mm E q d True)))"
  by pat_completeness auto
termination
  by (relation "inv_image (less_than <*lex*> less_than) (\<lambda>x. case x of
          Inl (E, p, d, mx) \<Rightarrow> (2 * d, 0)
        | Inr (Inl (E, p, d, ms, v)) \<Rightarrow> (2 * d + 1, length ms)
        | Inr (Inr (E, p, d, ms, v)) \<Rightarrow> (2 * d + 1, length ms))") auto

definition soft_bound :: "int \<Rightarrow> int \<Rightarrow> int \<Rightarrow> int \<Rightarrow> bool" where
  \<comment> \<open>what a search with window \<open>(a, b)\<close> that returned \<open>r\<close> tells about the exhaustive
      value \<open>v\<close>: \<open>r\<close> is exact inside the window, an upper bound at or below \<open>a\<close>, a lower
      bound at or above \<open>b\<close>\<close>
  "soft_bound a b v r = ((r \<le> a \<longrightarrow> v \<le> r) \<and> (a < r \<and> r < b \<longrightarrow> v = r) \<and> (b \<le> r \<longrightarrow> r \<le> v))"

definition rootScore :: "'p rules \<Rightarrow> difficulty \<Rightarrow> 'p chess \<Rightarrow> string \<Rightarrow> int option" where
  \<comment> \<open>the \<^verbatim>\<open>value\<close> that the loop of \<^verbatim>\<open>makeAIMove\<close> computes for a move\<close>
  "rootScore E difficulty g m = map_option fst (rootValue E difficulty g m)"


fun lastBest :: "(string \<Rightarrow> int) \<Rightarrow> string list \<Rightarrow> string option \<Rightarrow> int \<Rightarrow> string option \<times> int" where
  \<comment> \<open>auxiliary: the loop of \<^verbatim>\<open>makeAIMove\<close> over moves whose scores are given by \<open>f\<close>\<close>
  "lastBest f [] bestMove bestValue = (bestMove, bestValue)"
| "lastBest f (m # ms) bestMove bestValue =
     (if f m \<ge> bestValue then lastBest f ms (Some m) (f m) else lastBest f ms bestMove bestValue)"

definition terminal :: "'p rules \<Rightarrow> 'p \<Rightarrow> bool" where
  \<comment> \<open>the first test of \<^verbatim>\<open>makeAIMove\<close>\<close>
  "terminal E p = (isGameOver E p \<or> isDraw E p \<or> length (moves E p) = 0)"

section \<open>Example positions\<close>

text \<open>
  A small rules engine for concrete positions. A position is a diagram (the eight rows from
  rank 8 down to rank 1), the notation of the move that led to it, and the list of its legal
  moves in the engine's enumeration order, each with its source and target square. Playing a
  listed move carries the piece to its target square; the positions reached have no listed
  moves. A move ending in \<open>#\<close> gives checkmate, one ending in \<open>+\<close> or \<open>#\<close> gives check,
  as in algebraic notation.
\<close>

record diagram =
  grid :: "piece option list list"
  san :: string
  legal :: "(string \<times> string \<times> string) list"

definition square_index :: "string \<Rightarrow> (nat \<times> nat) option" where
  "square_index s =
     (case s of
        [c, d] \<Rightarrow>
          if 97 \<le> (of_char c :: nat) \<and> (of_char c :: nat) < 105
             \<and> 49 \<le> (of_char d :: nat) \<and> (of_char d :: nat) < 57
          then Some (of_char c - 97, of_char d - 49) else None
      | _ \<Rightarrow> None)"

definition grid_get :: "piece option list list \<Rightarrow> string \<Rightarrow> piece option" where
  "grid_get b s = (case square_index s of None \<Rightarrow> None | Some (i, j) \<Rightarrow> b ! (7 - j) ! i)"

definition grid_put :: "piece option list list \<Rightarrow> string \<Rightarrow> piece option \<Rightarrow> piece option list list" where
  "grid_put b s x =
     (case square_index s of None \<Rightarrow> b | Some (i, j) \<Rightarrow> b[7 - j := (b ! (7 - j))[i := x]])"

definition relocate :: "string \<Rightarrow> string \<Rightarrow> piece option list list \<Rightarrow> piece option list list" where
  "relocate src dst b = grid_put (grid_put b src None) dst (grid_get b src)"

definition play :: "diagram \<Rightarrow> string \<Rightarrow> diagram option" where
  "play p s =
     (case map_of (legal p) s of
        None \<Rightarrow> None
      | Some (src, dst) \<Rightarrow> Some \<lparr>grid = relocate src dst (grid p), san = s, legal = []\<rparr>)"

definition diagram_rules :: "diagram rules" where
  "diagram_rules =
     \<lparr>moves = (\<lambda>p. map fst (legal p)),
      move = play,
      get = (\<lambda>p. grid_get (grid p)),
      isCheck = (\<lambda>p. san p \<noteq> [] \<and> last (san p) \<in> {CHR ''+'', CHR ''#''}),
      isCheckmate = (\<lambda>p. san p \<noteq> [] \<and> last (san p) = CHR ''#''),
      isDraw = (\<lambda>p. False),
      isGameOver = (\<lambda>p. san p \<noteq> [] \<and> last (san p) = CHR ''#'')\<rparr>"

definition fresh :: "diagram \<Rightarrow> diagram chess" where
  "fresh p = \<lparr>current = p, history = []\<rparr>"

definition at_start :: "diagram \<Rightarrow> diagram component" where
  \<comment> \<open>the component on a position, before any move of the game is counted\<close>
  "at_start p = \<lparr>game = fresh p, gameOver = False, moveCount = 0\<rparr>"

abbreviation oo :: "piece option" where "oo \<equiv> None"
abbreviation wK :: "piece option" where "wK \<equiv> Some \<lparr>ptype = King, pcolor = White\<rparr>"
abbreviation wN :: "piece option" where "wN \<equiv> Some \<lparr>ptype = Knight, pcolor = White\<rparr>"
abbreviation wP :: "piece option" where "wP \<equiv> Some \<lparr>ptype = Pawn, pcolor = White\<rparr>"
abbreviation bK :: "piece option" where "bK \<equiv> Some \<lparr>ptype = King, pcolor = Black\<rparr>"
abbreviation bQ :: "piece option" where "bQ \<equiv> Some \<lparr>ptype = Queen, pcolor = Black\<rparr>"
abbreviation bR :: "piece option" where "bR \<equiv> Some \<lparr>ptype = Rook, pcolor = Black\<rparr>"
abbreviation bB :: "piece option" where "bB \<equiv> Some \<lparr>ptype = Bishop, pcolor = Black\<rparr>"
abbreviation bN :: "piece option" where "bN \<equiv> Some \<lparr>ptype = Knight, pcolor = Black\<rparr>"
abbreviation bP :: "piece option" where "bP \<equiv> Some \<lparr>ptype = Pawn, pcolor = Black\<rparr>"

text \<open>
  \<^verbatim>\<open>7k/2PPP3/2PP4/8/8/r7/1r3PPP/N5K1 b\<close>: Black to move has two mating moves, the capture
  \<open>Rxa1#\<close> and, later in the enumeration, \<open>Rb1#\<close>, which leaves the knight on the board.
\<close>

definition two_rooks :: diagram where
  "two_rooks =
     \<lparr>grid =
        [[oo, oo, oo, oo, oo, oo, oo, bK],
         [oo, oo, wP, wP, wP, oo, oo, oo],
         [oo, oo, wP, wP, oo, oo, oo, oo],
         [oo, oo, oo, oo, oo, oo, oo, oo],
         [oo, oo, oo, oo, oo, oo, oo, oo],
         [bR, oo, oo, oo, oo, oo, oo, oo],
         [oo, bR, oo, oo, oo, wP, wP, wP],
         [wN, oo, oo, oo, oo, oo, wK, oo]],
      san = [],
      legal =
        [(''Kh7'', ''h8'', ''h7''), (''Kg7'', ''h8'', ''g7''), (''Kg8'', ''h8'', ''g8''),
         (''Ra4'', ''a3'', ''a4''), (''Ra5'', ''a3'', ''a5''), (''Ra6'', ''a3'', ''a6''),
         (''Ra7'', ''a3'', ''a7''), (''Ra8'', ''a3'', ''a8''),
         (''Rab3'', ''a3'', ''b3''), (''Rc3'', ''a3'', ''c3''), (''Rd3'', ''a3'', ''d3''),
         (''Re3'', ''a3'', ''e3''), (''Rf3'', ''a3'', ''f3''), (''Rg3'', ''a3'', ''g3''),
         (''Rh3'', ''a3'', ''h3''),
         (''Raa2'', ''a3'', ''a2''), (''Rxa1#'', ''a3'', ''a1''),
         (''Rbb3'', ''b2'', ''b3''), (''Rb4'', ''b2'', ''b4''), (''Rb5'', ''b2'', ''b5''),
         (''Rb6'', ''b2'', ''b6''), (''Rb7'', ''b2'', ''b7''), (''Rb8'', ''b2'', ''b8''),
         (''Rc2'', ''b2'', ''c2''), (''Rd2'', ''b2'', ''d2''), (''Re2'', ''b2'', ''e2''),
         (''Rxf2'', ''b2'', ''f2''),
         (''Rb1#'', ''b2'', ''b1''), (''Rba2'', ''b2'', ''a2'')]\<rparr>"

text \<open>
  \<^verbatim>\<open>r5k1/5ppp/8/8/8/8/5PPP/6K1 b\<close>: nine pieces, among them the king, rook and king of the
  pattern \<^verbatim>\<open>rook_king_mate\<close>; Black mates on the back rank with \<open>Ra1#\<close>.
\<close>

definition back_rank :: diagram where
  "back_rank =
     \<lparr>grid =
        [[bR, oo, oo, oo, oo, oo, bK, oo],
         [oo, oo, oo, oo, oo, bP, bP, bP],
         [oo, oo, oo, oo, oo, oo, oo, oo],
         [oo, oo, oo, oo, oo, oo, oo, oo],
         [oo, oo, oo, oo, oo, oo, oo, oo],
         [oo, oo, oo, oo, oo, oo, oo, oo],
         [oo, oo, oo, oo, oo, wP, wP, wP],
         [oo, oo, oo, oo, oo, oo, wK, oo]],
      san = [],
      legal =
        [(''Rb8'', ''a8'', ''b8''), (''Rc8'', ''a8'', ''c8''), (''Rd8'', ''a8'', ''d8''),
         (''Re8'', ''a8'', ''e8''), (''Rf8'', ''a8'', ''f8''),
         (''Ra7'', ''a8'', ''a7''), (''Ra6'', ''a8'', ''a6''), (''Ra5'', ''a8'', ''a5''),
         (''Ra4'', ''a8'', ''a4''), (''Ra3'', ''a8'', ''a3''), (''Ra2'', ''a8'', ''a2''),
         (''Ra1#'', ''a8'', ''a1''),
         (''Kh8'', ''g8'', ''h8''), (''Kf8'', ''g8'', ''f8''),
         (''f6'', ''f7'', ''f6''), (''f5'', ''f7'', ''f5''),
         (''g6'', ''g7'', ''g6''), (''g5'', ''g7'', ''g5''),
         (''h6'', ''h7'', ''h6''), (''h5'', ''h7'', ''h5'')]\<rparr>"

definition mated :: diagram where
  \<comment> \<open>\<open>back_rank\<close> after \<open>Ra1#\<close>\<close>
  "mated =
     \<lparr>grid =
        [[oo, oo, oo, oo, oo, oo, bK, oo],
         [oo, oo, oo, oo, oo, bP, bP, bP],
         [oo, oo, oo, oo, oo, oo, oo, oo],
         [oo, oo, oo, oo, oo, oo, oo, oo],
         [oo, oo, oo, oo, oo, oo, oo, oo],
         [oo, oo, oo, oo, oo, oo, oo, oo],
         [oo, oo, oo, oo, oo, wP, wP, wP],
         [bR, oo, oo, oo, oo, oo, wK, oo]],
      san = ''Ra1#'',
      legal = []\<rparr>"

text \<open>
  \<^verbatim>\<open>7k/3p4/8/8/8/8/8/K7 b\<close>: the three king moves leave the evaluation at -80, the pawn
  moves lower it.
\<close>

definition king_pawn :: diagram where
  "king_pawn =
     \<lparr>grid =
        [[oo, oo, oo, oo, oo, oo, oo, bK],
         [oo, oo, oo, bP, oo, oo, oo, oo],
         [oo, oo, oo, oo, oo, oo, oo, oo],
         [oo, oo, oo, oo, oo, oo, oo, oo],
         [oo, oo, oo, oo, oo, oo, oo, oo],
         [oo, oo, oo, oo, oo, oo, oo, oo],
         [oo, oo, oo, oo, oo, oo, oo, oo],
         [wK, oo, oo, oo, oo, oo, oo, oo]],
      san = [],
      legal =
        [(''Kh7'', ''h8'', ''h7''), (''Kg7'', ''h8'', ''g7''), (''Kg8'', ''h8'', ''g8''),
         (''d6'', ''d7'', ''d6''), (''d5'', ''d7'', ''d5'')]\<rparr>"

text \<open>\<^verbatim>\<open>7k/5K2/8/8/8/8/P7/8 b\<close>: Black has the single legal move \<open>Kh7\<close>.\<close>

definition only_move :: diagram where
  "only_move =
     \<lparr>grid =
        [[oo, oo, oo, oo, oo, oo, oo, bK],
         [oo, oo, oo, oo, oo, wK, oo, oo],
         [oo, oo, oo, oo, oo, oo, oo, oo],
         [oo, oo, oo, oo, oo, oo, oo, oo],
         [oo, oo, oo, oo, oo, oo, oo, oo],
         [oo, oo, oo, oo, oo, oo, oo, oo],
         [wP, oo, oo, oo, oo, oo, oo, oo],
         [oo, oo, oo, oo, oo, oo, oo, oo]],
      san = [],
      legal = [(''Kh7'', ''h8'', ''h7'')]\<rparr>"

text \<open>
  \<^verbatim>\<open>qqqqqqqq/rbbqnrnk/5N2/6K1/8/8/8/8 b\<close>: the knight on \<open>f6\<close> gives check, the black
  king has no square (\<open>g6\<close> and \<open>h6\<close> are covered by the white king), and the rook on
  \<open>f7\<close> is the only piece that attacks the knight: Black has the single legal move
  \<open>Rxf6\<close>, which leaves a bare white king against nine queens, two rooks, two bishops and
  two knights.
\<close>

definition knight_check_one :: diagram where
  "knight_check_one =
     \<lparr>grid =
        [[bQ, bQ, bQ, bQ, bQ, bQ, bQ, bQ],
         [bR, bB, bB, bQ, bN, bR, bN, bK],
         [oo, oo, oo, oo, oo, wN, oo, oo],
         [oo, oo, oo, oo, oo, oo, wK, oo],
         [oo, oo, oo, oo, oo, oo, oo, oo],
         [oo, oo, oo, oo, oo, oo, oo, oo],
         [oo, oo, oo, oo, oo, oo, oo, oo],
         [oo, oo, oo, oo, oo, oo, oo, oo]],
      san = ''Nf6+'',
      legal = [(''Rxf6'', ''f7'', ''f6'')]\<rparr>"

text \<open>
  \<^verbatim>\<open>qqqqqqqq/1bbqnrnk/r4N2/6K1/8/8/8/8 b\<close>: the same position with the queen's rook on
  \<open>a6\<close>, from where it attacks the knight too: Black has the two legal moves \<open>Rfxf6\<close>
  and \<open>Raxf6\<close>, in this order.
\<close>

definition knight_check_two :: diagram where
  "knight_check_two =
     \<lparr>grid =
        [[bQ, bQ, bQ, bQ, bQ, bQ, bQ, bQ],
         [oo, bB, bB, bQ, bN, bR, bN, bK],
         [bR, oo, oo, oo, oo, wN, oo, oo],
         [oo, oo, oo, oo, oo, oo, wK, oo],
         [oo, oo, oo, oo, oo, oo, oo, oo],
         [oo, oo, oo, oo, oo, oo, oo, oo],
         [oo, oo, oo, oo, oo, oo, oo, oo],
         [oo, oo, oo, oo, oo, oo, oo, oo]],
      san = ''Nf6+'',
      legal = [(''Rfxf6'', ''f7'', ''f6''), (''Raxf6'', ''a6'', ''f6'')]\<rparr>"

definition in_game :: "nat \<Rightarrow> diagram \<Rightarrow> diagram component" where
  \<comment> \<open>the component on a position after \<open>n\<close> moves of the game\<close>
  "in_game n p = \<lparr>game = fresh p, gameOver = False, moveCount = n\<rparr>"

text \<open>
  \<^verbatim>\<open>rqqqqqkq/1rqqqnbb/8/8/8/8/6n1/7K w\<close>: White to move has two legal moves, the capture
  \<open>Kxg2\<close> and then \<open>Kg1\<close>; \<open>h2\<close> is covered by the queen on \<open>c7\<close>.
\<close>

definition army_capture :: diagram where
  "army_capture =
     \<lparr>grid =
        [[bR, bQ, bQ, bQ, bQ, bQ, bK, bQ],
         [oo, bR, bQ, bQ, bQ, bN, bB, bB],
         [oo, oo, oo, oo, oo, oo, oo, oo],
         [oo, oo, oo, oo, oo, oo, oo, oo],
         [oo, oo, oo, oo, oo, oo, oo, oo],
         [oo, oo, oo, oo, oo, oo, oo, oo],
         [oo, oo, oo, oo, oo, oo, bN, oo],
         [oo, oo, oo, oo, oo, oo, oo, wK]],
      san = [],
      legal = [(''Kxg2'', ''h1'', ''g2''), (''Kg1'', ''h1'', ''g1'')]\<rparr>"

section \<open>The game object across a search\<close>

lemma chess_move_playable:
  "legal_playable E \<Longrightarrow> m \<in> set (moves E (current g)) \<Longrightarrow>
   \<exists>q. move E (current g) m = Some q \<and>
       chess_move E g m = Some \<lparr>current = q, history = current g # history g\<rparr>"
  by (auto simp: legal_playable_def chess_move_def split: option.splits)

lemma chess_undo_pushed: "chess_undo \<lparr>current = q, history = current g # history g\<rparr> = g"
  by (simp add: chess_undo_def)


text \<open>
  With every enumerated move accepted, \<^verbatim>\<open>minimax\<close> and its loops return, leave the game
  object as they found it, and compute the value \<open>ab\<close>.
\<close>

lemma minimax_value:
  "legal_playable E \<Longrightarrow> minimax E g d mx a b = Some (ab E (current g) d mx a b, g)"
  "legal_playable E \<Longrightarrow> set ms \<subseteq> set (moves E (current g)) \<Longrightarrow>
     maxLoop E g d ms v a b = Some (abMax E (current g) d ms v a b, g)"
  "legal_playable E \<Longrightarrow> set ms \<subseteq> set (moves E (current g)) \<Longrightarrow>
     minLoop E g d ms v a b = Some (abMin E (current g) d ms v a b, g)"
proof (induction E g d mx a b and E g d ms v a b and E g d ms v a b
       rule: minimax_maxLoop_minLoop.induct)
  case (1 E position maximizingPlayer alpha beta)
  show ?case by simp
next
  case (2 E position d maximizingPlayer alpha beta)
  then show ?case by simp
next
  case (3 E position d maxEval alpha beta)
  show ?case by simp
next
  case (4 E position d m ms maxEval alpha beta)
  from "4.prems" obtain q where q: "move E (current position) m = Some q"
    and cm: "chess_move E position m = Some \<lparr>current = q, history = current position # history position\<rparr>"
    using chess_move_playable[of E m position] by auto
  let ?g1 = "\<lparr>current = q, history = current position # history position\<rparr>"
  have r: "minimax E ?g1 d False alpha beta = Some (ab E q d False alpha beta, ?g1)"
    using "4.IH"(1)[OF cm] "4.prems"(1) by simp
  show ?case
  proof (cases "beta \<le> max alpha (ab E q d False alpha beta)")
    case True
    then show ?thesis using q cm r by (simp add: chess_undo_pushed Let_def)
  next
    case False
    have "maxLoop E position d ms (max maxEval (ab E q d False alpha beta))
            (max alpha (ab E q d False alpha beta)) beta =
          Some (abMax E (current position) d ms (max maxEval (ab E q d False alpha beta))
            (max alpha (ab E q d False alpha beta)) beta, position)"
      using "4.IH"(2)[OF cm r[symmetric, THEN sym] refl refl refl refl] False "4.prems"
      by (simp add: chess_undo_pushed)
    then show ?thesis using q cm r False by (simp add: chess_undo_pushed Let_def)
  qed
next
  case (5 E position d minEval alpha beta)
  show ?case by simp
next
  case (6 E position d m ms minEval alpha beta)
  from "6.prems" obtain q where q: "move E (current position) m = Some q"
    and cm: "chess_move E position m = Some \<lparr>current = q, history = current position # history position\<rparr>"
    using chess_move_playable[of E m position] by auto
  let ?g1 = "\<lparr>current = q, history = current position # history position\<rparr>"
  have r: "minimax E ?g1 d True alpha beta = Some (ab E q d True alpha beta, ?g1)"
    using "6.IH"(1)[OF cm] "6.prems"(1) by simp
  show ?case
  proof (cases "min beta (ab E q d True alpha beta) \<le> alpha")
    case True
    then show ?thesis using q cm r by (simp add: chess_undo_pushed Let_def)
  next
    case False
    have "minLoop E position d ms (min minEval (ab E q d True alpha beta))
            alpha (min beta (ab E q d True alpha beta)) =
          Some (abMin E (current position) d ms (min minEval (ab E q d True alpha beta))
            alpha (min beta (ab E q d True alpha beta)), position)"
      using "6.IH"(2)[OF cm r[symmetric, THEN sym] refl refl refl refl] False "6.prems"
      by (simp add: chess_undo_pushed)
    then show ?thesis using q cm r False by (simp add: chess_undo_pushed Let_def)
  qed
qed

lemma minimax_exhaustive_value:
  "legal_playable E \<Longrightarrow> minimax_exhaustive E g d mx = Some (mm E (current g) d mx, g)"
  "legal_playable E \<Longrightarrow> set ms \<subseteq> set (moves E (current g)) \<Longrightarrow>
     maxLoop_exhaustive E g d ms v = Some (mmMax E (current g) d ms v, g)"
  "legal_playable E \<Longrightarrow> set ms \<subseteq> set (moves E (current g)) \<Longrightarrow>
     minLoop_exhaustive E g d ms v = Some (mmMin E (current g) d ms v, g)"
proof (induction E g d mx and E g d ms v and E g d ms v
       rule: minimax_exhaustive_maxLoop_exhaustive_minLoop_exhaustive.induct)
  case (1 E position maximizingPlayer)
  show ?case by simp
next
  case (2 E position d maximizingPlayer)
  then show ?case by simp
next
  case (3 E position d maxEval)
  show ?case by simp
next
  case (4 E position d m ms maxEval)
  from "4.prems" obtain q where q: "move E (current position) m = Some q"
    and cm: "chess_move E position m = Some \<lparr>current = q, history = current position # history position\<rparr>"
    using chess_move_playable[of E m position] by auto
  let ?g1 = "\<lparr>current = q, history = current position # history position\<rparr>"
  have r: "minimax_exhaustive E ?g1 d False = Some (mm E q d False, ?g1)"
    using "4.IH"(1)[OF cm] "4.prems"(1) by simp
  have "maxLoop_exhaustive E position d ms (max maxEval (mm E q d False)) =
        Some (mmMax E (current position) d ms (max maxEval (mm E q d False)), position)"
    using "4.IH"(2)[OF cm r[symmetric, THEN sym] refl refl refl] "4.prems"
    by (simp add: chess_undo_pushed)
  then show ?case using q cm r by (simp add: chess_undo_pushed Let_def)
next
  case (5 E position d minEval)
  show ?case by simp
next
  case (6 E position d m ms minEval)
  from "6.prems" obtain q where q: "move E (current position) m = Some q"
    and cm: "chess_move E position m = Some \<lparr>current = q, history = current position # history position\<rparr>"
    using chess_move_playable[of E m position] by auto
  let ?g1 = "\<lparr>current = q, history = current position # history position\<rparr>"
  have r: "minimax_exhaustive E ?g1 d True = Some (mm E q d True, ?g1)"
    using "6.IH"(1)[OF cm] "6.prems"(1) by simp
  have "minLoop_exhaustive E position d ms (min minEval (mm E q d True)) =
        Some (mmMin E (current position) d ms (min minEval (mm E q d True)), position)"
    using "6.IH"(2)[OF cm r[symmetric, THEN sym] refl refl refl] "6.prems"
    by (simp add: chess_undo_pushed)
  then show ?case using q cm r by (simp add: chess_undo_pushed Let_def)
qed

lemma rootValue_restores:
  assumes "legal_playable E" "m \<in> set (moves E (current g))"
  shows "\<exists>v. rootValue E df g m = Some (v, g)"
proof -
  from assms obtain q where
    cm: "chess_move E g m = Some \<lparr>current = q, history = current g # history g\<rparr>"
    using chess_move_playable[of E m g] by auto
  show ?thesis
    using cm minimax_value(1)[OF assms(1)]
    by (simp add: rootValue_def Let_def chess_undo_pushed)
qed

section \<open>The example engine\<close>

text \<open>
  The example engine accepts exactly the moves it lists. The lemmas after that let the
  simplifier evaluate a diagram: a square is looked up by its indices, not by its name.
\<close>

lemma diagram_moves: "moves diagram_rules p = map fst (legal p)"
  by (simp add: diagram_rules_def)

lemma diagram_move: "move diagram_rules p s = play p s"
  by (simp add: diagram_rules_def)

lemma diagram_flags:
  "isCheck diagram_rules p = (san p \<noteq> [] \<and> last (san p) \<in> {CHR ''+'', CHR ''#''})"
  "isCheckmate diagram_rules p = (san p \<noteq> [] \<and> last (san p) = CHR ''#'')"
  "isDraw diagram_rules p = False"
  "isGameOver diagram_rules p = (san p \<noteq> [] \<and> last (san p) = CHR ''#'')"
  by (simp_all add: diagram_rules_def)

lemma square_index_square: "i < 8 \<Longrightarrow> j < 8 \<Longrightarrow> square_index (square i j) = Some (i, j)"
  by (simp add: square_index_def square_def)

lemma diagram_get_square:
  "i < 8 \<Longrightarrow> j < 8 \<Longrightarrow> get diagram_rules p (square i j) = grid p ! (7 - j) ! i"
  by (simp add: diagram_rules_def grid_get_def square_index_square)

lemma diagram_get: "get diagram_rules p s = grid_get (grid p) s"
  by (simp add: diagram_rules_def)

lemma upt_8: "[0..<8] = [0, 1, 2, 3, 4, 5, 6, 7]"
  by (simp add: upt_rec)

lemma legal_playable_diagram: "legal_playable diagram_rules"
proof -
  have "play p m \<noteq> None" if "m \<in> set (map fst (legal p))" for p m
  proof -
    from that have "map_of (legal p) m \<noteq> None"
      by (simp add: map_of_eq_None_iff)
    then show ?thesis by (auto simp: play_def split: option.splits)
  qed
  then show ?thesis by (simp add: legal_playable_def diagram_moves diagram_move)
qed

lemma accepted_legal_diagram: "accepted_legal diagram_rules"
proof -
  have "m \<in> set (map fst (legal p))" if "play p m \<noteq> None" for p m
  proof -
    from that have "map_of (legal p) m \<noteq> None"
      by (auto simp: play_def split: option.splits)
    then show ?thesis by (simp add: map_of_eq_None_iff)
  qed
  then show ?thesis by (simp add: accepted_legal_def diagram_moves diagram_move)
qed

lemmas diagram_eval =
  evaluateBoard_def squareValue_def diagram_get_square upt_8 diagram_flags pawnPositionBonus_def

lemmas diagram_play =
  diagram_moves diagram_move play_def relocate_def grid_put_def grid_get_def square_index_def
  chess_move_def chess_undo_def fresh_def

lemma pieceCount_diagram:
  "pieceCount diagram_rules p = length (filter (\<lambda>x. x \<noteq> None) (concat (map (\<lambda>j. map (\<lambda>i. grid p ! (7 - j) ! i) [0,1,2,3,4,5,6,7]) [7,6,5,4,3,2,1,0])))"
  by (simp add: pieceCount_def board_def upt_8 diagram_get_square)

section \<open>Pruning against the exhaustive search\<close>

lemma mmMax_ge: "v \<le> mmMax E p d ms v"
proof (induction ms arbitrary: v)
  case Nil
  show ?case by simp
next
  case (Cons m ms)
  show ?case
  proof (cases "move E p m")
    case None
    then show ?thesis using Cons[of v] by simp
  next
    case (Some q)
    have "max v (mm E q d False) \<le> mmMax E p d ms (max v (mm E q d False))" by (rule Cons)
    then show ?thesis using Some by simp
  qed
qed

lemma mmMin_le: "mmMin E p d ms v \<le> v"
proof (induction ms arbitrary: v)
  case Nil
  show ?case by simp
next
  case (Cons m ms)
  show ?case
  proof (cases "move E p m")
    case None
    then show ?thesis using Cons[of v] by simp
  next
    case (Some q)
    have "mmMin E p d ms (min v (mm E q d True)) \<le> min v (mm E q d True)" by (rule Cons)
    then show ?thesis using Some by simp
  qed
qed

lemma abMax_soft_bound:
  assumes child: "\<And>q a b. a < b \<Longrightarrow> soft_bound a b (mm E q d False) (ab E q d False a b)"
  shows "F \<le> M \<Longrightarrow> M \<le> F \<or> M \<le> a0 \<Longrightarrow> a0 \<le> A \<Longrightarrow> A \<le> max a0 M \<Longrightarrow> A < b \<Longrightarrow>
         soft_bound a0 b (mmMax E p d ms F) (abMax E p d ms M A b)"
proof (induction ms arbitrary: M F A)
  case Nil
  then show ?case by (auto simp: soft_bound_def)
next
  case (Cons m ms)
  show ?case
  proof (cases "move E p m")
    case None
    then show ?thesis using Cons.IH[OF Cons.prems] by simp
  next
    case (Some q)
    define e where "e = ab E q d False A b"
    define w where "w = mm E q d False"
    have ew: "soft_bound A b w e"
      unfolding e_def w_def using child[OF \<open>A < b\<close>] .
    show ?thesis
    proof (cases "b \<le> max A e")
      case True
      have be: "b \<le> e" using True \<open>A < b\<close> by simp
      then have "e \<le> w" using ew by (simp add: soft_bound_def)
      moreover have "max F w \<le> mmMax E p d ms (max F w)" by (rule mmMax_ge)
      ultimately have "max M e \<le> mmMax E p d ms (max F w)"
        using Cons.prems be by linarith
      moreover have "a0 < max M e" "b \<le> max M e" using be Cons.prems by simp_all
      ultimately have "soft_bound a0 b (mmMax E p d ms (max F w)) (max M e)"
        unfolding soft_bound_def by arith
      then show ?thesis using Some True by (simp add: e_def w_def Let_def)
    next
      case False
      then have eb: "e < b" by simp
      then have we: "w \<le> e" and ex: "A < e \<Longrightarrow> w = e"
        using ew by (auto simp: soft_bound_def)
      have "soft_bound a0 b (mmMax E p d ms (max F w)) (abMax E p d ms (max M e) (max A e) b)"
      proof (rule Cons.IH)
        show "max F w \<le> max M e" using we Cons.prems by linarith
        show "max M e \<le> max F w \<or> max M e \<le> a0" using ex Cons.prems by linarith
        show "a0 \<le> max A e" using Cons.prems by linarith
        show "max A e \<le> max a0 (max M e)" using Cons.prems by linarith
        show "max A e < b" using False by linarith
      qed
      then show ?thesis using Some False by (simp add: e_def w_def Let_def)
    qed
  qed
qed

lemma abMin_soft_bound:
  assumes child: "\<And>q a b. a < b \<Longrightarrow> soft_bound a b (mm E q d True) (ab E q d True a b)"
  shows "M \<le> F \<Longrightarrow> F \<le> M \<or> b0 \<le> M \<Longrightarrow> B \<le> b0 \<Longrightarrow> min b0 M \<le> B \<Longrightarrow> a < B \<Longrightarrow>
         soft_bound a b0 (mmMin E p d ms F) (abMin E p d ms M a B)"
proof (induction ms arbitrary: M F B)
  case Nil
  then show ?case by (auto simp: soft_bound_def)
next
  case (Cons m ms)
  show ?case
  proof (cases "move E p m")
    case None
    then show ?thesis using Cons.IH[OF Cons.prems] by simp
  next
    case (Some q)
    define e where "e = ab E q d True a B"
    define w where "w = mm E q d True"
    have ew: "soft_bound a B w e"
      unfolding e_def w_def using child[OF \<open>a < B\<close>] .
    show ?thesis
    proof (cases "min B e \<le> a")
      case True
      have be: "e \<le> a" using True \<open>a < B\<close> by simp
      then have "w \<le> e" using ew by (simp add: soft_bound_def)
      moreover have "mmMin E p d ms (min F w) \<le> min F w" by (rule mmMin_le)
      ultimately have "mmMin E p d ms (min F w) \<le> min M e"
        using Cons.prems be by linarith
      moreover have "min M e < b0" "min M e \<le> a" using be Cons.prems by simp_all
      ultimately have "soft_bound a b0 (mmMin E p d ms (min F w)) (min M e)"
        unfolding soft_bound_def by arith
      then show ?thesis using Some True by (simp add: e_def w_def Let_def)
    next
      case False
      then have eb: "a < e" by simp
      then have we: "e \<le> w" and ex: "e < B \<Longrightarrow> w = e"
        using ew by (auto simp: soft_bound_def)
      have "soft_bound a b0 (mmMin E p d ms (min F w)) (abMin E p d ms (min M e) a (min B e))"
      proof (rule Cons.IH)
        show "min M e \<le> min F w" using we Cons.prems by linarith
        show "min F w \<le> min M e \<or> b0 \<le> min M e" using ex Cons.prems by linarith
        show "min B e \<le> b0" using Cons.prems by linarith
        show "min b0 (min M e) \<le> min B e" using Cons.prems by linarith
        show "a < min B e" using False by linarith
      qed
      then show ?thesis using Some False by (simp add: e_def w_def Let_def)
    qed
  qed
qed

lemma ab_soft_bound: "a < b \<Longrightarrow> soft_bound a b (mm E p d mx) (ab E p d mx a b)"
proof (induction d arbitrary: p mx a b)
  case 0
  show ?case by (simp add: soft_bound_def)
next
  case (Suc d)
  show ?case
  proof (cases mx)
    case True
    have "soft_bound a b (mmMax E p d (moves E p) (- 9999)) (abMax E p d (moves E p) (- 9999) a b)"
      using Suc.prems by (intro abMax_soft_bound Suc.IH) simp_all
    then show ?thesis using True by simp
  next
    case False
    have "soft_bound a b (mmMin E p d (moves E p) 9999) (abMin E p d (moves E p) 9999 a b)"
      using Suc.prems by (intro abMin_soft_bound Suc.IH) simp_all
    then show ?thesis using False by simp
  qed
qed


text \<open>
  The values of the exhaustive search stay between the two sentinels from depth 2 on, so the
  window of the caller, from -10000 to 10000, contains them; at depth 1 a value is the best of
  the sentinel and the evaluations of the positions reached, which the window need not contain.
\<close>

lemma mmMax_le:
  assumes "\<And>q. mm E q d False \<le> c"
  shows "v \<le> c \<Longrightarrow> mmMax E p d ms v \<le> c"
proof (induction ms arbitrary: v)
  case Nil
  then show ?case by simp
next
  case (Cons m ms)
  show ?case
  proof (cases "move E p m")
    case None
    then show ?thesis using Cons by simp
  next
    case (Some q)
    have "max v (mm E q d False) \<le> c" using Cons.prems assms[of q] by simp
    then have "mmMax E p d ms (max v (mm E q d False)) \<le> c" by (rule Cons.IH)
    then show ?thesis using Some by simp
  qed
qed

lemma mmMin_ge:
  assumes "\<And>q. c \<le> mm E q d True"
  shows "c \<le> v \<Longrightarrow> c \<le> mmMin E p d ms v"
proof (induction ms arbitrary: v)
  case Nil
  then show ?case by simp
next
  case (Cons m ms)
  show ?case
  proof (cases "move E p m")
    case None
    then show ?thesis using Cons by simp
  next
    case (Some q)
    have "c \<le> min v (mm E q d True)" using Cons.prems assms[of q] by simp
    then have "c \<le> mmMin E p d ms (min v (mm E q d True))" by (rule Cons.IH)
    then show ?thesis using Some by simp
  qed
qed

lemma mm_max_ge: "- 9999 \<le> mm E p (Suc d) True"
  using mmMax_ge[of "- 9999" E p d "moves E p"] by simp

lemma mm_min_le: "mm E p (Suc d) False \<le> 9999"
  using mmMin_le[of E p d "moves E p" 9999] by simp

lemma mm_deep_range: "- 9999 \<le> mm E p (Suc (Suc d)) mx \<and> mm E p (Suc (Suc d)) mx \<le> 9999"
proof (cases mx)
  case True
  have "mmMax E p (Suc d) (moves E p) (- 9999) \<le> 9999"
    by (rule mmMax_le) (use mm_min_le[of E _ d] in simp_all)
  then show ?thesis using True mm_max_ge[of E p "Suc d"] by simp
next
  case False
  have "- 9999 \<le> mmMin E p (Suc d) (moves E p) 9999"
    by (rule mmMin_ge) (use mm_max_ge[of E _ d] in simp_all)
  then show ?thesis using False mm_min_le[of E p "Suc d"] by simp
qed

lemma ab_exact_in_window:
  assumes "a < mm E p d mx" "mm E p d mx < b"
  shows "ab E p d mx a b = mm E p d mx"
proof -
  have "a < b" using assms by simp
  then have "soft_bound a b (mm E p d mx) (ab E p d mx a b)" by (rule ab_soft_bound)
  then show ?thesis using assms unfolding soft_bound_def by arith
qed

lemma pruning_exact_in_window:
  assumes "legal_playable E"
    and "minimax_exhaustive E g d mx = Some (v, g')"
    and "- 10000 < v" and "v < 10000"
  shows "minimax E g d mx (- 10000) 10000 = Some (v, g)"
proof -
  have "v = mm E (current g) d mx"
    using assms(2) minimax_exhaustive_value(1)[OF assms(1), of g d mx] by auto
  then have "ab E (current g) d mx (- 10000) 10000 = v"
    using assms(3,4) ab_exact_in_window[of "- 10000" E "current g" d mx 10000] by simp
  then show ?thesis using minimax_value(1)[OF assms(1), of g d mx "- 10000" 10000] by simp
qed

lemma pruning_exact_off_depth_one:
  assumes "legal_playable E" and "d \<noteq> 1"
  shows "minimax E g d mx (- 10000) 10000 = minimax_exhaustive E g d mx"
proof (cases d)
  case 0
  then show ?thesis by simp
next
  case (Suc d')
  then obtain k where d: "d = Suc (Suc k)" using assms(2) by (cases d') auto
  have "ab E (current g) d mx (- 10000) 10000 = mm E (current g) d mx"
    using mm_deep_range[of E "current g" k mx] unfolding d
    by (intro ab_exact_in_window) simp_all
  then show ?thesis
    using minimax_value(1)[OF assms(1), of g d mx "- 10000" 10000]
      minimax_exhaustive_value(1)[OF assms(1), of g d mx] by simp
qed

lemma rootScore_playable:
  assumes "legal_playable E" "m \<in> set (moves E (current g))"
  shows "\<exists>v. rootValue E df g m = Some (v, g) \<and> rootScore E df g m = Some v"
  using rootValue_restores[OF assms, of df] by (auto simp: rootScore_def)

section \<open>Claims about the search\<close>

text \<open>
  Claim C2. For every position and every depth, every move that the search applies to the
  shared game object is undone before the enclosing call returns, also when a pruning break
  cuts the enumeration short: with an engine that accepts the moves it enumerates,
  \<^verbatim>\<open>minimax\<close> returns, and the game object it leaves (the position and the history of
  moves made) is the one it was given. The same holds for the three statements with which
  \<^verbatim>\<open>makeAIMove\<close> scores a legal move.
\<close>

theorem search_restores_game:
  assumes "legal_playable E"
  shows "(\<exists>v. minimax E g d mx a b = Some (v, g))
       \<and> (\<forall>m \<in> set (moves E (current g)). \<exists>v. rootValue E df g m = Some (v, g))"
  using assms minimax_value(1)[OF assms] rootValue_restores[OF assms] by blast

theorem search_restores_game_witness:
  "legal_playable diagram_rules
   \<and> (\<exists>v. minimax diagram_rules (fresh king_pawn) 2 True (- 10000) 10000 = Some (v, fresh king_pawn))
   \<and> (\<exists>v. rootValue diagram_rules Hard (fresh king_pawn) ''Kg7'' = Some (v, fresh king_pawn))"
proof -
  have "''Kg7'' \<in> set (moves diagram_rules (current (fresh king_pawn)))"
    by (simp add: diagram_moves fresh_def king_pawn_def)
  then show ?thesis
    using search_restores_game[OF legal_playable_diagram, of "fresh king_pawn" 2 True "- 10000" 10000 Hard]
      legal_playable_diagram
    by blast
qed

text \<open>
  Claim C10. For every position with no legal move and every depth of at least 1, the search
  returns -9999 when it maximizes and 9999 when it minimizes, and leaves the game object alone.
  The evaluator is not consulted: the result is the same whatever the engine answers to the
  queries the evaluator makes (the piece on a square, check, checkmate, draw), so a checkmate
  inside the search tree is scored by the sentinel and not by the evaluator's 10000.
\<close>

theorem no_moves_sentinel:
  assumes "moves E (current g) = []" and "1 \<le> d"
  shows "minimax (E\<lparr>get := gt, isCheck := ck, isCheckmate := cm, isDraw := dr\<rparr>) g d True a b
           = Some (- 9999, g)
       \<and> minimax (E\<lparr>get := gt, isCheck := ck, isCheckmate := cm, isDraw := dr\<rparr>) g d False a b
           = Some (9999, g)"
proof -
  from assms(2) obtain d' where "d = Suc d'" by (cases d) auto
  then show ?thesis using assms(1) by simp
qed

theorem no_moves_sentinel_witness:
  "moves diagram_rules (current (fresh mated)) = [] \<and> (1::nat) \<le> 2
   \<and> isCheckmate diagram_rules (current (fresh mated))
   \<and> minimax diagram_rules (fresh mated) 2 True (- 10000) 10000 = Some (- 9999, fresh mated)
   \<and> minimax diagram_rules (fresh mated) 2 False (- 10000) 10000 = Some (9999, fresh mated)"
proof -
  have m: "moves diagram_rules (current (fresh mated)) = []"
    by (simp add: diagram_moves fresh_def mated_def)
  have e: "diagram_rules\<lparr>get := get diagram_rules, isCheck := isCheck diagram_rules,
             isCheckmate := isCheckmate diagram_rules, isDraw := isDraw diagram_rules\<rparr> = diagram_rules"
    by simp
  have c: "isCheckmate diagram_rules (current (fresh mated))"
    by (simp add: diagram_flags fresh_def mated_def)
  show ?thesis
    using no_moves_sentinel[OF m, where d = 2 and gt = "get diagram_rules"
        and ck = "isCheck diagram_rules" and cm = "isCheckmate diagram_rules"
        and dr = "isDraw diagram_rules" and a = "- 10000" and b = 10000] m c
    unfolding e by simp
qed

section \<open>Claims about the endgame heuristic\<close>

text \<open>
  Claim C8. For every position with more than 10 pieces on the board, every difficulty and
  every candidate move, \<^verbatim>\<open>getEndgameBonus\<close> returns 0; no pattern is simulated, since
  the result does not depend on what the engine answers for the move.
\<close>

theorem bonus_zero_above_ten_pieces:
  assumes "10 < pieceCount E (current g)"
  shows "getEndgameBonus E df g m = 0"
  using assms by (simp add: getEndgameBonus_def isEndgame_def pieceCount_def)

theorem bonus_zero_above_ten_pieces_witness:
  "10 < pieceCount diagram_rules (current (fresh two_rooks))
   \<and> getEndgameBonus diagram_rules Easy (fresh two_rooks) ''Rb1#'' = 0"
proof -
  have "pieceCount diagram_rules (current (fresh two_rooks)) = 13"
    by (simp add: pieceCount_diagram fresh_def two_rooks_def)
  then have h: "10 < pieceCount diagram_rules (current (fresh two_rooks))" by simp
  show ?thesis using bonus_zero_above_ten_pieces[OF h] h by simp
qed


section \<open>Claims about the evaluator\<close>

text \<open>
  The two nested loops of \<^verbatim>\<open>evaluateBoard\<close> add one term for each of the 64 squares.
\<close>

lemma pieceValues_spec: "pieceValues t = spec_pieceValue t"
  by (cases t) simp_all

lemma squareValue_term:
  assumes "j < 8"
  shows "squareValue E p i j tot = tot + squareTerm E p i j"
proof (cases "get E p (square i j)")
  case None
  then show ?thesis by (simp add: squareValue_def squareTerm_def)
next
  case (Some pc)
  have r: "7 - own_rank (pcolor pc) j = (if pcolor pc = White then 7 - j else j)"
    using assms by (cases "pcolor pc") auto
  have s: "spec_sign (pcolor pc) = (if pcolor pc = White then 1 else - 1)"
    by (cases "pcolor pc") auto
  show ?thesis
    using Some
    by (simp add: squareValue_def squareTerm_def spec_pieceTerm_def spec_pawnBonus_def
        pieceValues_spec r s Let_def algebra_simps)
qed

lemma fold_plus_sum:
  "fold (\<lambda>x (tot::int). tot + f x) xs t = t + sum_list (map f xs)"
  by (induction xs arbitrary: t) simp_all

lemma inner_loop:
  "fold (\<lambda>j tot. squareValue E p i j tot) [0..<8] t = t + (\<Sum>j = 0..<8. squareTerm E p i j)"
proof -
  have "fold (\<lambda>j tot. squareValue E p i j tot) [0..<8] t
      = fold (\<lambda>j tot. tot + squareTerm E p i j) [0..<8] t"
    by (rule fold_cong) (simp_all add: squareValue_term)
  also have "\<dots> = t + sum_list (map (squareTerm E p i) [0..<8])"
    by (rule fold_plus_sum)
  also have "sum_list (map (squareTerm E p i) [0..<8]) = (\<Sum>j = 0..<8. squareTerm E p i j)"
    by (simp add: interv_sum_list_conv_sum_set_nat)
  finally show ?thesis .
qed

lemma outer_loop:
  "fold (\<lambda>i tot. fold (\<lambda>j tot. squareValue E p i j tot) [0..<8] tot) [0..<8] 0
     = (\<Sum>i = 0..<8. \<Sum>j = 0..<8. squareTerm E p i j)"
proof -
  have "fold (\<lambda>i tot. fold (\<lambda>j tot. squareValue E p i j tot) [0..<8] tot) [0..<8] 0
      = fold (\<lambda>i tot. tot + (\<Sum>j = 0..<8. squareTerm E p i j)) [0..<8] 0"
    by (simp add: inner_loop)
  also have "\<dots> = 0 + sum_list (map (\<lambda>i. \<Sum>j = 0..<8. squareTerm E p i j) [0..<8])"
    by (rule fold_plus_sum)
  also have "\<dots> = (\<Sum>i = 0..<8. \<Sum>j = 0..<8. squareTerm E p i j)"
    by (simp add: interv_sum_list_conv_sum_set_nat)
  finally show ?thesis .
qed

lemma occupied_sum:
  "(\<Sum>(i, j) \<in> occupied E p. spec_pieceTerm (the (get E p (square i j))) i j)
     = (\<Sum>i = 0..<8. \<Sum>j = 0..<8. squareTerm E p i j)"
proof -
  let ?A = "{0..<8::nat} \<times> {0..<8::nat}"
  let ?P = "\<lambda>(i, j). get E p (square i j) \<noteq> None"
  let ?g = "\<lambda>(i, j). spec_pieceTerm (the (get E p (square i j))) i j"
  have "occupied E p = {x \<in> ?A. ?P x}"
    by (auto simp: occupied_def)
  then have "sum ?g (occupied E p) = (\<Sum>x \<in> ?A. if ?P x then ?g x else 0)"
    by (simp add: sum.inter_filter)
  also have "\<dots> = (\<Sum>(i, j) \<in> ?A. squareTerm E p i j)"
    by (rule sum.cong) (auto simp: squareTerm_def)
  also have "\<dots> = (\<Sum>i = 0..<8. \<Sum>j = 0..<8. squareTerm E p i j)"
    by (simp add: sum.cartesian_product)
  finally show ?thesis .
qed

text \<open>
  Claim C4. For every position, \<^verbatim>\<open>evaluateBoard\<close> returns what section 4.2 of the
  specification describes: the sum over the occupied squares of the piece value signed by
  colour (pawn 100, knight 320, bishop 330, rook 500, queen 900, king 20000; White counts
  positive, Black negative), with, for a pawn, the entry of the piece-square table for its file
  and its rank seen from its own side, signed in the same way; plus 50 when the position is in
  check and 10000 when it is checkmate, whichever side is to move; a draw adds 0.
\<close>

theorem evaluateBoard_meets_spec: "evaluateBoard E p = spec_evaluate E p"
  by (simp add: evaluateBoard_def spec_evaluate_def outer_loop occupied_sum Let_def)

section \<open>Pruning at depth 1\<close>

text \<open>
  Claim C1. The claim is that for every position, depth and maximizing flag the search with
  pruning, started with the caller's bounds -10000 and 10000, returns the score of the
  exhaustive search. The theorem evaluates both searches at depth 1 on two positions where
  they differ. In \<open>army_capture\<close>, with the flag false as \<^verbatim>\<open>makeAIMove\<close> passes it,
  the capture \<open>Kxg2\<close> is evaluated at -10080, which is not above the lower bound: the loop
  breaks and returns -10080, while \<open>Kg1\<close>, never tried, leaves the evaluation at -10400. In
  \<open>two_rooks\<close>, with the flag true, the first mating move is evaluated at 10075, which is
  not below the upper bound: the loop breaks and returns 10075, while the second mating move
  is evaluated at 10395. (By \<open>pruning_exact_off_depth_one\<close> and \<open>pruning_exact_in_window\<close>
  the two searches agree at every other depth, and at depth 1 whenever the exhaustive score
  lies strictly between the bounds.)
\<close>

theorem pruning_changes_value:
  "minimax diagram_rules (fresh army_capture) 1 False (- 10000) 10000
     = Some (- 10080, fresh army_capture)
   \<and> minimax_exhaustive diagram_rules (fresh army_capture) 1 False
     = Some (- 10400, fresh army_capture)
   \<and> minimax diagram_rules (fresh two_rooks) 1 True (- 10000) 10000
     = Some (10075, fresh two_rooks)
   \<and> minimax_exhaustive diagram_rules (fresh two_rooks) 1 True
     = Some (10395, fresh two_rooks)"
proof -
  have a: "minimax diagram_rules (fresh army_capture) 1 False (- 10000) 10000
     = Some (- 10080, fresh army_capture)"
    by (simp add: diagram_eval diagram_play army_capture_def)
  have b: "minimax_exhaustive diagram_rules (fresh army_capture) 1 False
     = Some (- 10400, fresh army_capture)"
    by (simp add: diagram_eval diagram_play army_capture_def)
  have c: "minimax diagram_rules (fresh two_rooks) 1 True (- 10000) 10000
     = Some (10075, fresh two_rooks)"
    by (simp add: diagram_eval diagram_play two_rooks_def)
  have d: "minimax_exhaustive diagram_rules (fresh two_rooks) 1 True
     = Some (10395, fresh two_rooks)"
    by (simp add: diagram_eval diagram_play two_rooks_def)
  show ?thesis using a b c d by blast
qed

section \<open>The selection loop\<close>

text \<open>
  With an engine that accepts the moves it enumerates, the loop of \<^verbatim>\<open>makeAIMove\<close> is
  \<open>lastBest\<close> over the scores of the moves, and the move it keeps is one of the moves it was
  given.
\<close>

lemma lastBest_all_below:
  "(\<forall>x \<in> set ms. f x < bv) \<Longrightarrow> lastBest f ms bm bv = (bm, bv)"
  by (induction ms) auto

lemma lastBest_last_maximal:
  "i < length ms \<Longrightarrow> bv \<le> f (ms ! i) \<Longrightarrow> (\<forall>j < length ms. f (ms ! j) \<le> f (ms ! i)) \<Longrightarrow>
   (\<forall>j. i < j \<and> j < length ms \<longrightarrow> f (ms ! j) < f (ms ! i)) \<Longrightarrow>
   lastBest f ms bm bv = (Some (ms ! i), f (ms ! i))"
proof (induction ms arbitrary: i bm bv)
  case Nil
  then show ?case by simp
next
  case (Cons m ms)
  show ?case
  proof (cases i)
    case 0
    have "\<forall>x \<in> set ms. f x < f m"
    proof
      fix x assume "x \<in> set ms"
      then obtain k where k: "k < length ms" "ms ! k = x" by (auto simp: in_set_conv_nth)
      then have "f ((m # ms) ! Suc k) < f ((m # ms) ! i)"
        using Cons.prems(4) 0 by (intro Cons.prems(4)[rule_format]) simp
      then show "f x < f m" using k 0 by simp
    qed
    then have "lastBest f ms (Some m) (f m) = (Some m, f m)" by (rule lastBest_all_below)
    then show ?thesis using 0 Cons.prems(2) by simp
  next
    case (Suc k)
    have k: "k < length ms" using Cons.prems(1) Suc by simp
    have le: "f m \<le> f (ms ! k)" using Cons.prems(3)[rule_format, of 0] Suc by simp
    have all: "\<forall>j < length ms. f (ms ! j) \<le> f (ms ! k)"
    proof (intro allI impI)
      fix j assume "j < length ms"
      then show "f (ms ! j) \<le> f (ms ! k)"
        using Cons.prems(3)[rule_format, of "Suc j"] Suc by simp
    qed
    have later: "\<forall>j. k < j \<and> j < length ms \<longrightarrow> f (ms ! j) < f (ms ! k)"
    proof (intro allI impI)
      fix j assume "k < j \<and> j < length ms"
      then show "f (ms ! j) < f (ms ! k)"
        using Cons.prems(4)[rule_format, of "Suc j"] Suc by simp
    qed
    have bv: "bv \<le> f (ms ! k)" using Cons.prems(2) Suc by simp
    show ?thesis
    proof (cases "bv \<le> f m")
      case True
      then show ?thesis
        using Cons.IH[OF k le all later, of "Some m"] Suc by simp
    next
      case False
      then show ?thesis
        using Cons.IH[OF k bv all later, of bm] Suc by simp
    qed
  qed
qed

lemma lastBest_member:
  "lastBest f ms bm bv = (Some m, v) \<Longrightarrow> m \<in> set ms \<or> bm = Some m"
  by (induction ms arbitrary: bm bv) (auto split: if_splits)

lemma rootLoop_lastBest:
  assumes "legal_playable E"
  shows "set ms \<subseteq> set (moves E (current g)) \<Longrightarrow>
     rootLoop E df g ms bm bv =
       Some (fst (lastBest (\<lambda>m. the (rootScore E df g m)) ms bm bv),
             snd (lastBest (\<lambda>m. the (rootScore E df g m)) ms bm bv), g)"
proof (induction ms arbitrary: bm bv)
  case Nil
  show ?case by simp
next
  case (Cons m ms)
  then have "m \<in> set (moves E (current g))" by simp
  then obtain v where v: "rootValue E df g m = Some (v, g)" "rootScore E df g m = Some v"
    using rootScore_playable[OF assms, of m g df] by auto
  have sub: "set ms \<subseteq> set (moves E (current g))" using Cons.prems by simp
  show ?case using v Cons.IH[OF sub] by simp
qed

lemma rootLoop_member:
  "rootLoop E df g ms bm bv = Some (Some m, v, g') \<Longrightarrow> m \<in> set ms \<or> bm = Some m"
proof (induction ms arbitrary: g bm bv)
  case Nil
  then show ?case by simp
next
  case (Cons x ms)
  from Cons.prems obtain w g1 where w: "rootValue E df g x = Some (w, g1)"
    by (auto split: option.splits)
  show ?case
  proof (cases "bv \<le> w")
    case True
    then have "rootLoop E df g1 ms (Some x) w = Some (Some m, v, g')"
      using Cons.prems w by simp
    from Cons.IH[OF this] show ?thesis by auto
  next
    case False
    then have "rootLoop E df g1 ms bm bv = Some (Some m, v, g')"
      using Cons.prems w by simp
    from Cons.IH[OF this] show ?thesis by auto
  qed
qed

lemma searchMove_selects:
  assumes "legal_playable E"
    and "set ms \<subseteq> set (moves E (current (game st)))"
    and "lastBest (\<lambda>m. the (rootScore E df (game st) m)) ms None (- 9999) = (Some m, v)"
  shows "\<exists>q. move E (current (game st)) m = Some q \<and>
           searchMove E df st ms =
             Some (Some m, st\<lparr>game := \<lparr>current = q, history = []\<rparr>, moveCount := moveCount st + 1\<rparr>)"
proof -
  have "m \<in> set ms" using lastBest_member[OF assms(3)] by simp
  then have "m \<in> set (moves E (current (game st)))" using assms(2) by auto
  then obtain q where q: "move E (current (game st)) m = Some q"
    "chess_move E (game st) m = Some \<lparr>current = q, history = current (game st) # history (game st)\<rparr>"
    using chess_move_playable[OF assms(1), of m "game st"] by auto
  show ?thesis
    using q rootLoop_lastBest[OF assms(1,2), of df None "- 9999"] assms(3)
    by (simp add: searchMove_def chess_copy_def)
qed

lemma searchMove_returns:
  assumes "legal_playable E" and "set ms \<subseteq> set (moves E (current (game st)))"
  shows "\<exists>r. searchMove E df st ms = Some r"
proof (cases "fst (lastBest (\<lambda>m. the (rootScore E df (game st) m)) ms None (- 9999))")
  case None
  then show ?thesis
    using rootLoop_lastBest[OF assms, of df None "- 9999"] by (simp add: searchMove_def)
next
  case (Some m)
  then have "lastBest (\<lambda>m. the (rootScore E df (game st) m)) ms None (- 9999)
      = (Some m, snd (lastBest (\<lambda>m. the (rootScore E df (game st) m)) ms None (- 9999)))"
    by (simp add: prod_eq_iff)
  from searchMove_selects[OF assms this] show ?thesis by blast
qed

lemma makeAIMove_after_book:
  assumes "\<not> (moveCount st < length opening
            \<and> move E (current (game st)) (opening ! moveCount st) \<noteq> None)"
  shows "makeAIMove E df opening st =
          (if terminal E (current (game st)) then Some (None, st\<lparr>gameOver := True\<rparr>)
           else searchMove E df st (moves E (current (game st))))"
  using assms by (auto simp: makeAIMove_def terminal_def chess_move_def Let_def split: option.splits)

text \<open>The scores of the moves in the example positions, at the difficulty easy.\<close>

lemmas diagram_bonus =
  getEndgameBonus_def isEndgame_def board_def patternBonus_def chess_copy_def centralSquares_def
  rootScore_def rootValue_def

lemma king_pawn_scores:
  "map (rootScore diagram_rules Easy (fresh king_pawn)) [''Kh7'', ''Kg7'', ''Kg8'', ''d6'', ''d5'']
     = map Some [- 80, - 80, - 80, - 100, - 120]"
  by (simp add: diagram_bonus diagram_eval diagram_play king_pawn_def)

lemma king_pawn_moves:
  "moves diagram_rules (current (fresh king_pawn)) = [''Kh7'', ''Kg7'', ''Kg8'', ''d6'', ''d5'']"
  by (simp add: diagram_moves fresh_def king_pawn_def)

lemma king_pawn_search:
  "searchMove diagram_rules Easy (at_start king_pawn) [''Kh7'', ''Kg7'', ''Kg8'', ''d6'', ''d5'']
     = Some (Some ''Kg8'',
         \<lparr>game = \<lparr>current = \<lparr>grid = relocate ''h8'' ''g8'' (grid king_pawn), san = ''Kg8'', legal = []\<rparr>,
                   history = []\<rparr>,
          gameOver = False, moveCount = 1\<rparr>)"
  by (simp add: searchMove_def at_start_def diagram_bonus diagram_eval diagram_play king_pawn_def)

lemma knight_check_scores:
  "rootScore diagram_rules Easy (fresh knight_check_two) ''Rfxf6'' = Some (- 10400)"
  "rootScore diagram_rules Easy (fresh knight_check_two) ''Raxf6'' = Some (- 10400)"
  "rootScore diagram_rules Easy (fresh knight_check_one) ''Rxf6'' = Some (- 10400)"
  by (simp_all add: diagram_bonus diagram_eval diagram_play knight_check_two_def
      knight_check_one_def)

lemma only_move_score:
  "rootScore diagram_rules Easy (fresh only_move) ''Kh7'' = Some 105"
  by (simp add: diagram_bonus diagram_eval diagram_play only_move_def)

lemma at_start_game: "game (at_start p) = fresh p"
  by (simp add: at_start_def)

lemma in_game_game: "game (in_game n p) = fresh p"
  by (simp add: in_game_def)

lemma example_moves:
  "moves diagram_rules (current (fresh knight_check_two)) = [''Rfxf6'', ''Raxf6'']"
  "moves diagram_rules (current (fresh knight_check_one)) = [''Rxf6'']"
  "moves diagram_rules (current (fresh only_move)) = [''Kh7'']"
  by (simp_all add: diagram_moves fresh_def knight_check_two_def knight_check_one_def
      only_move_def)

lemma example_not_over:
  "\<not> isGameOver diagram_rules (current (fresh king_pawn))"
  "\<not> isGameOver diagram_rules (current (fresh knight_check_two))"
  "\<not> isGameOver diagram_rules (current (fresh knight_check_one))"
  "\<not> isGameOver diagram_rules (current (fresh only_move))"
  by (simp_all add: diagram_flags fresh_def king_pawn_def knight_check_two_def
      knight_check_one_def only_move_def)

lemma example_not_terminal:
  "\<not> terminal diagram_rules (current (fresh king_pawn))"
  "\<not> terminal diagram_rules (current (fresh knight_check_two))"
  "\<not> terminal diagram_rules (current (fresh knight_check_one))"
  "\<not> terminal diagram_rules (current (fresh only_move))"
  using example_not_over
  by (simp_all add: terminal_def king_pawn_moves example_moves diagram_flags(3))

lemma no_move_below_floor:
  assumes "legal_playable E"
    and "set ms \<subseteq> set (moves E (current (game st)))"
    and "\<forall>m \<in> set ms. \<exists>v. rootScore E df (game st) m = Some v \<and> v < - 9999"
  shows "searchMove E df st ms = Some (None, st)"
proof -
  let ?f = "\<lambda>m. the (rootScore E df (game st) m)"
  have "\<forall>x \<in> set ms. ?f x < - 9999" using assms(3) by fastforce
  then have "lastBest ?f ms None (- 9999) = (None, - 9999)" by (rule lastBest_all_below)
  then have "rootLoop E df (game st) ms None (- 9999) = Some (None, - 9999, game st)"
    using rootLoop_lastBest[OF assms(1,2), of df None "- 9999"] by simp
  then show ?thesis by (simp add: searchMove_def)
qed

section \<open>Claims about the move selector\<close>

text \<open>
  The selection loop keeps a move only if its score reaches the running best, which starts at
  -9999. A legal move whose score (search value plus endgame bonus) is maximal among the legal
  moves, is at least -9999, and is strictly above the score of every move enumerated after it,
  is the move played: among several moves with the same maximal score it is the last in the
  engine's enumeration order. Here \<open>vs\<close> lists the scores of the legal moves in enumeration
  order. When every score is below -9999, no move is kept (\<open>no_move_below_floor\<close>).
\<close>

lemma root_selection_takes_last_best:
  assumes "legal_playable E"
    and "ms = moves E (current (game st))"
    and "map (rootScore E df (game st)) ms = map Some vs"
    and "i < length ms"
    and "- 9999 \<le> vs ! i"
    and "\<forall>j < length vs. vs ! j \<le> vs ! i"
    and "\<forall>j. i < j \<and> j < length vs \<longrightarrow> vs ! j < vs ! i"
  shows "\<exists>q. move E (current (game st)) (ms ! i) = Some q \<and>
           searchMove E df st ms =
             Some (Some (ms ! i),
                   st\<lparr>game := \<lparr>current = q, history = []\<rparr>, moveCount := moveCount st + 1\<rparr>)"
proof -
  let ?f = "\<lambda>m. the (rootScore E df (game st) m)"
  have len: "length vs = length ms"
    using assms(3) by (metis length_map)
  have f: "?f (ms ! j) = vs ! j" if "j < length ms" for j
  proof -
    have "map (rootScore E df (game st)) ms ! j = map Some vs ! j" using assms(3) by simp
    then show ?thesis using that len by simp
  qed
  have "lastBest ?f ms None (- 9999) = (Some (ms ! i), ?f (ms ! i))"
  proof (rule lastBest_last_maximal)
    show "i < length ms" by (rule assms(4))
    show "- 9999 \<le> ?f (ms ! i)" using assms(4,5) f by simp
    show "\<forall>j < length ms. ?f (ms ! j) \<le> ?f (ms ! i)"
      using assms(4,6) f len by simp
    show "\<forall>j. i < j \<and> j < length ms \<longrightarrow> ?f (ms ! j) < ?f (ms ! i)"
      using assms(4,7) f len by simp
  qed
  moreover have "set ms \<subseteq> set (moves E (current (game st)))" using assms(2) by simp
  ultimately show ?thesis using searchMove_selects[OF assms(1)] by blast
qed

lemma root_selection_takes_last_best_example:
  "legal_playable diagram_rules
   \<and> moves diagram_rules (current (game (at_start king_pawn)))
       = [''Kh7'', ''Kg7'', ''Kg8'', ''d6'', ''d5'']
   \<and> map (rootScore diagram_rules Easy (game (at_start king_pawn)))
         [''Kh7'', ''Kg7'', ''Kg8'', ''d6'', ''d5'']
       = map Some [- 80, - 80, - 80, - 100, - 120]
   \<and> (\<exists>q. searchMove diagram_rules Easy (at_start king_pawn) [''Kh7'', ''Kg7'', ''Kg8'', ''d6'', ''d5'']
         = Some (Some ''Kg8'',
                 at_start king_pawn\<lparr>game := \<lparr>current = q, history = []\<rparr>, moveCount := 1\<rparr>))"
proof -
  let ?vs = "[- 80, - 80, - 80, - 100, - 120] :: int list"
  let ?ms = "[''Kh7'', ''Kg7'', ''Kg8'', ''d6'', ''d5'']"
  have g: "game (at_start king_pawn) = fresh king_pawn" by (simp add: at_start_def)
  have m: "?ms = moves diagram_rules (current (game (at_start king_pawn)))"
    by (simp add: g king_pawn_moves)
  have s: "map (rootScore diagram_rules Easy (game (at_start king_pawn))) ?ms = map Some ?vs"
    unfolding g by (rule king_pawn_scores)
  have a: "\<forall>j < length ?vs. ?vs ! j \<le> ?vs ! 2"
    by (simp add: nth_Cons' less_Suc_eq numeral_eq_Suc all_conj_distrib)
  have b: "\<forall>j. 2 < j \<and> j < length ?vs \<longrightarrow> ?vs ! j < ?vs ! 2"
    by (auto simp: nth_Cons' less_Suc_eq numeral_eq_Suc)
  have "\<exists>q. move diagram_rules (current (game (at_start king_pawn))) (?ms ! 2) = Some q \<and>
           searchMove diagram_rules Easy (at_start king_pawn) ?ms =
             Some (Some (?ms ! 2),
                   at_start king_pawn\<lparr>game := \<lparr>current = q, history = []\<rparr>,
                     moveCount := moveCount (at_start king_pawn) + 1\<rparr>)"
    by (rule root_selection_takes_last_best[OF legal_playable_diagram m s _ _ a b]) simp_all
  then have "\<exists>q. searchMove diagram_rules Easy (at_start king_pawn) ?ms =
             Some (Some ''Kg8'', at_start king_pawn\<lparr>game := \<lparr>current = q, history = []\<rparr>, moveCount := 1\<rparr>)"
    by (auto simp: at_start_def)
  then show ?thesis using legal_playable_diagram m[symmetric] s by blast
qed

text \<open>
  Claim C5. The claim is that whenever at least two legal moves have scores that are equal and
  maximal, the selector plays the last of them in the engine's enumeration order. The theorem
  evaluates \<^verbatim>\<open>makeAIMove\<close> at the difficulty easy, past the opening line, on
  \<open>knight_check_two\<close>: the position is not over, its legal moves are \<open>Rfxf6\<close> and
  \<open>Raxf6\<close>, both have the score -10400, which is maximal, and the selector plays neither:
  it returns without a move and leaves the component as it was, the game not marked over. No
  score reaches the initial best value -9999, which the loop uses for "no move seen yet".
\<close>

theorem tied_best_moves_not_played:
  "moves diagram_rules (current (game (in_game 200 knight_check_two))) = [''Rfxf6'', ''Raxf6'']
   \<and> \<not> terminal diagram_rules (current (game (in_game 200 knight_check_two)))
   \<and> rootScore diagram_rules Easy (game (in_game 200 knight_check_two)) ''Rfxf6'' = Some (- 10400)
   \<and> rootScore diagram_rules Easy (game (in_game 200 knight_check_two)) ''Raxf6'' = Some (- 10400)
   \<and> makeAIMove diagram_rules Easy [''e4'', ''e5''] (in_game 200 knight_check_two)
       = Some (None, in_game 200 knight_check_two)"
proof -
  have g: "game (in_game 200 knight_check_two) = fresh knight_check_two" by (rule in_game_game)
  have m: "moves diagram_rules (current (fresh knight_check_two)) = [''Rfxf6'', ''Raxf6'']"
    by (rule example_moves)
  have t: "\<not> terminal diagram_rules (current (fresh knight_check_two))"
    by (rule example_not_terminal)
  have s: "searchMove diagram_rules Easy (in_game 200 knight_check_two) [''Rfxf6'', ''Raxf6'']
       = Some (None, in_game 200 knight_check_two)"
    by (simp add: searchMove_def in_game_def diagram_bonus diagram_eval diagram_play
        knight_check_two_def)
  have b: "\<not> (moveCount (in_game 200 knight_check_two) < length [''e4'', ''e5'']
      \<and> move diagram_rules (current (game (in_game 200 knight_check_two)))
            ([''e4'', ''e5''] ! moveCount (in_game 200 knight_check_two)) \<noteq> None)"
    by (simp add: in_game_def)
  have "makeAIMove diagram_rules Easy [''e4'', ''e5''] (in_game 200 knight_check_two)
       = Some (None, in_game 200 knight_check_two)"
    using makeAIMove_after_book[OF b, of Easy] t s unfolding g m by simp
  then show ?thesis using m t knight_check_scores(1,2) unfolding g by simp
qed

text \<open>
  In a position that is not over and has exactly one legal move, the selector plays that move
  when its score is at least -9999 (with a rules engine that accepts the moves it enumerates
  and no others, so that a book move it accepts is that move).
\<close>

lemma single_move_selected:
  assumes "legal_playable E" and "accepted_legal E"
    and "moves E (current (game st)) = [m]"
    and "\<not> isGameOver E (current (game st))" and "\<not> isDraw E (current (game st))"
    and "rootScore E df (game st) m = Some v" and "- 9999 \<le> v"
  shows "\<exists>q. move E (current (game st)) m = Some q \<and>
           makeAIMove E df opening st =
             Some (Some m, st\<lparr>game := \<lparr>current = q, history = []\<rparr>, moveCount := moveCount st + 1\<rparr>)"
proof (cases "moveCount st < length opening
              \<and> move E (current (game st)) (opening ! moveCount st) \<noteq> None")
  case True
  then obtain q where q: "move E (current (game st)) (opening ! moveCount st) = Some q" by auto
  then have "opening ! moveCount st \<in> set (moves E (current (game st)))"
    using assms(2) by (simp add: accepted_legal_def)
  then have "opening ! moveCount st = m" using assms(3) by simp
  then show ?thesis
    using True q assms(3,4,5)
    by (simp add: makeAIMove_def chess_move_def chess_copy_def Let_def)
next
  case False
  have t: "\<not> terminal E (current (game st))"
    using assms(3,4,5) by (simp add: terminal_def)
  have "lastBest (\<lambda>m. the (rootScore E df (game st) m)) [m] None (- 9999) = (Some m, v)"
    using assms(6,7) by simp
  then have "\<exists>q. move E (current (game st)) m = Some q \<and>
           searchMove E df st [m] =
             Some (Some m, st\<lparr>game := \<lparr>current = q, history = []\<rparr>, moveCount := moveCount st + 1\<rparr>)"
    using assms(3) by (intro searchMove_selects[OF assms(1)]) simp_all
  then show ?thesis
    using makeAIMove_after_book[OF False, of df] t assms(3) by simp
qed

lemma single_move_selected_example:
  "legal_playable diagram_rules \<and> accepted_legal diagram_rules
   \<and> moves diagram_rules (current (game (at_start only_move))) = [''Kh7'']
   \<and> \<not> isGameOver diagram_rules (current (game (at_start only_move)))
   \<and> \<not> isDraw diagram_rules (current (game (at_start only_move)))
   \<and> rootScore diagram_rules Easy (game (at_start only_move)) ''Kh7'' = Some 105
   \<and> (\<exists>q. makeAIMove diagram_rules Easy [''e4'', ''e5''] (at_start only_move)
         = Some (Some ''Kh7'',
                 at_start only_move\<lparr>game := \<lparr>current = q, history = []\<rparr>, moveCount := 1\<rparr>))"
proof -
  have g: "game (at_start only_move) = fresh only_move" by (rule at_start_game)
  have m: "moves diagram_rules (current (game (at_start only_move))) = [''Kh7'']"
    unfolding g by (rule example_moves)
  have o: "\<not> isGameOver diagram_rules (current (game (at_start only_move)))"
    unfolding g by (rule example_not_over)
  have d: "\<not> isDraw diagram_rules (current (game (at_start only_move)))"
    by (simp add: diagram_flags)
  have s: "rootScore diagram_rules Easy (game (at_start only_move)) ''Kh7'' = Some 105"
    unfolding g by (rule only_move_score)
  have "\<exists>q. move diagram_rules (current (game (at_start only_move))) ''Kh7'' = Some q \<and>
           makeAIMove diagram_rules Easy [''e4'', ''e5''] (at_start only_move) =
             Some (Some ''Kh7'', at_start only_move\<lparr>game := \<lparr>current = q, history = []\<rparr>,
                      moveCount := moveCount (at_start only_move) + 1\<rparr>)"
    by (rule single_move_selected[OF legal_playable_diagram accepted_legal_diagram m o d s]) simp
  then have "\<exists>q. makeAIMove diagram_rules Easy [''e4'', ''e5''] (at_start only_move)
         = Some (Some ''Kh7'',
                 at_start only_move\<lparr>game := \<lparr>current = q, history = []\<rparr>, moveCount := 1\<rparr>)"
    by (auto simp: at_start_def)
  then show ?thesis using legal_playable_diagram accepted_legal_diagram m o d s by blast
qed

text \<open>
  Claim C6. The claim is that in a position with exactly one legal move, the game not over,
  the selector plays that move whatever its score. The theorem evaluates \<^verbatim>\<open>makeAIMove\<close>
  at the difficulty easy, past the opening line, on \<open>knight_check_one\<close>: the position is
  not over, \<open>Rxf6\<close> is its only legal move, the score of the move is -10400, and the selector
  does not play it: it returns without a move and leaves the component as it was, the game
  not marked over. The score is below the initial best value -9999.
\<close>

theorem single_move_not_played:
  "moves diagram_rules (current (game (in_game 200 knight_check_one))) = [''Rxf6'']
   \<and> \<not> isGameOver diagram_rules (current (game (in_game 200 knight_check_one)))
   \<and> \<not> isDraw diagram_rules (current (game (in_game 200 knight_check_one)))
   \<and> rootScore diagram_rules Easy (game (in_game 200 knight_check_one)) ''Rxf6'' = Some (- 10400)
   \<and> makeAIMove diagram_rules Easy [''e4'', ''e5''] (in_game 200 knight_check_one)
       = Some (None, in_game 200 knight_check_one)"
proof -
  have g: "game (in_game 200 knight_check_one) = fresh knight_check_one" by (rule in_game_game)
  have m: "moves diagram_rules (current (fresh knight_check_one)) = [''Rxf6'']"
    by (rule example_moves)
  have o: "\<not> isGameOver diagram_rules (current (fresh knight_check_one))"
    by (rule example_not_over)
  have d: "\<not> isDraw diagram_rules (current (fresh knight_check_one))"
    by (simp add: diagram_flags)
  have t: "\<not> terminal diagram_rules (current (fresh knight_check_one))"
    by (rule example_not_terminal)
  have s: "searchMove diagram_rules Easy (in_game 200 knight_check_one) [''Rxf6'']
       = Some (None, in_game 200 knight_check_one)"
    by (simp add: searchMove_def in_game_def diagram_bonus diagram_eval diagram_play
        knight_check_one_def)
  have b: "\<not> (moveCount (in_game 200 knight_check_one) < length [''e4'', ''e5'']
      \<and> move diagram_rules (current (game (in_game 200 knight_check_one)))
            ([''e4'', ''e5''] ! moveCount (in_game 200 knight_check_one)) \<noteq> None)"
    by (simp add: in_game_def)
  have "makeAIMove diagram_rules Easy [''e4'', ''e5''] (in_game 200 knight_check_one)
       = Some (None, in_game 200 knight_check_one)"
    using makeAIMove_after_book[OF b, of Easy] t s unfolding g m by simp
  then show ?thesis using m o d knight_check_scores(3) unfolding g by simp
qed

text \<open>
  Claim C3. For every position, a move that the selector plays, from the opening book or from
  the search, is one of the moves that the rules engine enumerates for that position (with a
  rules engine that accepts no move it does not enumerate: the book move is played only if the
  engine accepts it, and the search only tries enumerated moves).
\<close>

theorem selected_move_is_legal:
  assumes "accepted_legal E" and "makeAIMove E df opening st = Some (Some m, st')"
  shows "m \<in> set (moves E (current (game st)))"
proof (cases "moveCount st < length opening
              \<and> move E (current (game st)) (opening ! moveCount st) \<noteq> None")
  case True
  then obtain q where q: "move E (current (game st)) (opening ! moveCount st) = Some q" by auto
  have nt: "\<not> terminal E (current (game st))"
    using assms(2) by (auto simp: makeAIMove_def terminal_def Let_def)
  then have "m = opening ! moveCount st"
    using assms(2) True q
    by (auto simp: makeAIMove_def terminal_def chess_move_def Let_def)
  then show ?thesis using q assms(1) by (simp add: accepted_legal_def)
next
  case False
  have "searchMove E df st (moves E (current (game st))) = Some (Some m, st')"
    using assms(2) makeAIMove_after_book[OF False, of df] by (auto split: if_splits)
  then obtain v g where "rootLoop E df (game st) (moves E (current (game st))) None (- 9999)
      = Some (Some m, v, g)"
    by (auto simp: searchMove_def split: option.splits)
  from rootLoop_member[OF this] show ?thesis by simp
qed

theorem selected_move_is_legal_witness:
  "accepted_legal diagram_rules
   \<and> makeAIMove diagram_rules Easy [] (at_start king_pawn)
       = Some (Some ''Kg8'',
           \<lparr>game = \<lparr>current = \<lparr>grid = relocate ''h8'' ''g8'' (grid king_pawn), san = ''Kg8'', legal = []\<rparr>,
                     history = []\<rparr>,
            gameOver = False, moveCount = 1\<rparr>)
   \<and> ''Kg8'' \<in> set (moves diagram_rules (current (game (at_start king_pawn))))"
proof -
  have g: "game (at_start king_pawn) = fresh king_pawn" by (rule at_start_game)
  have t: "\<not> terminal diagram_rules (current (game (at_start king_pawn)))"
    unfolding g by (rule example_not_terminal)
  have r: "makeAIMove diagram_rules Easy [] (at_start king_pawn)
       = Some (Some ''Kg8'',
           \<lparr>game = \<lparr>current = \<lparr>grid = relocate ''h8'' ''g8'' (grid king_pawn), san = ''Kg8'', legal = []\<rparr>,
                     history = []\<rparr>,
            gameOver = False, moveCount = 1\<rparr>)"
    using makeAIMove_after_book[of "at_start king_pawn" "[]" diagram_rules Easy] t king_pawn_search
    by (simp add: g king_pawn_moves)
  show ?thesis
    using selected_move_is_legal[OF accepted_legal_diagram r] accepted_legal_diagram r by blast
qed

text \<open>
  Claim C9. For every ply at which the opening line has a move for the current move count and
  the rules engine rejects it, \<^verbatim>\<open>makeAIMove\<close> does what it does without a book: it
  reports the end of the game if the position is over and runs the search-based selection on
  the same position otherwise; and it returns, so that no error reaches the caller.
\<close>

theorem rejected_book_move_falls_back:
  assumes "legal_playable E"
    and "moveCount st < length opening"
    and "move E (current (game st)) (opening ! moveCount st) = None"
  shows "makeAIMove E df opening st =
           (if terminal E (current (game st)) then Some (None, st\<lparr>gameOver := True\<rparr>)
            else searchMove E df st (moves E (current (game st))))
       \<and> (\<exists>r. makeAIMove E df opening st = Some r)"
proof -
  have eq: "makeAIMove E df opening st =
           (if terminal E (current (game st)) then Some (None, st\<lparr>gameOver := True\<rparr>)
            else searchMove E df st (moves E (current (game st))))"
    using assms(3) by (intro makeAIMove_after_book) simp
  have "\<exists>r. searchMove E df st (moves E (current (game st))) = Some r"
    by (rule searchMove_returns[OF assms(1)]) simp
  then show ?thesis using eq by auto
qed

theorem rejected_book_move_falls_back_witness:
  "legal_playable diagram_rules
   \<and> moveCount (at_start king_pawn\<lparr>moveCount := 1\<rparr>) < length [''e4'', ''e5'']
   \<and> move diagram_rules (current (game (at_start king_pawn\<lparr>moveCount := 1\<rparr>)))
        ([''e4'', ''e5''] ! moveCount (at_start king_pawn\<lparr>moveCount := 1\<rparr>)) = None
   \<and> makeAIMove diagram_rules Easy [''e4'', ''e5''] (at_start king_pawn\<lparr>moveCount := 1\<rparr>)
       = searchMove diagram_rules Easy (at_start king_pawn\<lparr>moveCount := 1\<rparr>)
           [''Kh7'', ''Kg7'', ''Kg8'', ''d6'', ''d5'']
   \<and> (\<exists>r. makeAIMove diagram_rules Easy [''e4'', ''e5''] (at_start king_pawn\<lparr>moveCount := 1\<rparr>)
         = Some r)"
proof -
  let ?st = "at_start king_pawn\<lparr>moveCount := 1\<rparr>"
  have g: "game ?st = fresh king_pawn" by (simp add: at_start_def)
  have c: "moveCount ?st < length [''e4'', ''e5'']" by simp
  have "move diagram_rules (current (fresh king_pawn)) ''e5'' = None"
    by (simp add: diagram_move play_def fresh_def king_pawn_def)
  then have n: "move diagram_rules (current (game ?st)) ([''e4'', ''e5''] ! moveCount ?st) = None"
    unfolding g by simp
  have t: "\<not> terminal diagram_rules (current (game ?st))"
    unfolding g by (rule example_not_terminal)
  have m: "moves diagram_rules (current (game ?st)) = [''Kh7'', ''Kg7'', ''Kg8'', ''d6'', ''d5'']"
    unfolding g by (rule king_pawn_moves)
  from rejected_book_move_falls_back[OF legal_playable_diagram c n, of Easy]
  have e: "makeAIMove diagram_rules Easy [''e4'', ''e5''] ?st =
        (if terminal diagram_rules (current (game ?st)) then Some (None, ?st\<lparr>gameOver := True\<rparr>)
         else searchMove diagram_rules Easy ?st (moves diagram_rules (current (game ?st))))"
    and r: "\<exists>r. makeAIMove diagram_rules Easy [''e4'', ''e5''] ?st = Some r"
    by blast+
  have "makeAIMove diagram_rules Easy [''e4'', ''e5''] ?st =
        searchMove diagram_rules Easy ?st [''Kh7'', ''Kg7'', ''Kg8'', ''d6'', ''d5'']"
    using e[unfolded m if_not_P[OF t]] .
  then show ?thesis using legal_playable_diagram c n r by blast
qed

section \<open>The endgame bonus of a mating move\<close>

text \<open>
  \<^verbatim>\<open>makeAIMove\<close> calls \<^verbatim>\<open>getEndgameBonus\<close> after \<^verbatim>\<open>game.move(move)\<close>, so the
  copy on which the move is simulated is a copy of the position after the move. Where the
  engine does not accept the same notation again in that position, every pattern is skipped.
\<close>

lemma catalog_names_include_mate:
  "list_all (\<lambda>pat. str_includes (pattern_name pat) ''mate'')
     (endgamePatterns Easy @ endgamePatterns Intermediate @ endgamePatterns Hard)"
  by code_simp

lemma bonus_zero_when_rejected:
  assumes "move E (current g) m = None"
  shows "getEndgameBonus E df g m = 0"
proof -
  have "patternBonus E g m pat bonus = bonus" for pat bonus
    using assms by (simp add: patternBonus_def chess_copy_def chess_move_def)
  then have "fold (\<lambda>pat bonus. patternBonus E g m pat bonus) pats 0 = 0" for pats
    by (induction pats) simp_all
  then show ?thesis by (simp add: getEndgameBonus_def)
qed

lemma back_rank_mates: "move diagram_rules back_rank ''Ra1#'' = Some mated"
  by (simp add: diagram_play back_rank_def mated_def)

text \<open>
  Claim C7. The claim is that in a position with 9 pieces that contains the pieces of an easy
  pattern, the score of a candidate move that gives checkmate includes the pattern bonus 500
  and the evaluator's 10000. The theorem evaluates the code on \<open>back_rank\<close> at the
  difficulty easy: the position has 9 pieces, \<open>Ra1#\<close> is legal and gives checkmate,
  the position reached passes \<^verbatim>\<open>isEndgame\<close> and is evaluated at 9550 (material and pawn
  table -500, check 50, checkmate 10000), the endgame bonus computed for the move is 0, and the
  score of the move is 9550: the 500 is missing.
\<close>

theorem mating_move_gets_no_pattern_bonus:
  "pieceCount diagram_rules back_rank = 9
   \<and> ''Ra1#'' \<in> set (moves diagram_rules back_rank)
   \<and> move diagram_rules back_rank ''Ra1#'' = Some mated
   \<and> isCheckmate diagram_rules mated
   \<and> isEndgame diagram_rules \<lparr>current = mated, history = [back_rank]\<rparr>
   \<and> evaluateBoard diagram_rules mated = 9550
   \<and> getEndgameBonus diagram_rules Easy \<lparr>current = mated, history = [back_rank]\<rparr> ''Ra1#'' = 0
   \<and> rootValue diagram_rules Easy (fresh back_rank) ''Ra1#'' = Some (9550, fresh back_rank)"
proof -
  have c: "pieceCount diagram_rules back_rank = 9"
    by (simp add: pieceCount_diagram back_rank_def)
  have l: "''Ra1#'' \<in> set (moves diagram_rules back_rank)"
    by (simp add: diagram_moves back_rank_def)
  have k: "isCheckmate diagram_rules mated"
    by (simp add: diagram_flags mated_def)
  have n: "isEndgame diagram_rules \<lparr>current = mated, history = [back_rank]\<rparr>"
    by (simp add: isEndgame_def board_def upt_8 diagram_get_square mated_def)
  have e: "evaluateBoard diagram_rules mated = 9550"
    by (simp add: diagram_eval mated_def)
  have "move diagram_rules mated ''Ra1#'' = None"
    by (simp add: diagram_move play_def mated_def)
  then have b: "getEndgameBonus diagram_rules Easy \<lparr>current = mated, history = [back_rank]\<rparr> ''Ra1#'' = 0"
    by (intro bonus_zero_when_rejected) simp
  have cm: "chess_move diagram_rules (fresh back_rank) ''Ra1#''
      = Some \<lparr>current = mated, history = [back_rank]\<rparr>"
    using back_rank_mates by (simp add: chess_move_def fresh_def)
  have u: "chess_undo \<lparr>current = mated, history = [back_rank]\<rparr> = fresh back_rank"
    by (simp add: chess_undo_def fresh_def)
  have r: "rootValue diagram_rules Easy (fresh back_rank) ''Ra1#'' = Some (9550, fresh back_rank)"
    by (simp add: rootValue_def cm e b u)
  show ?thesis using c l back_rank_mates k n e b r by blast
qed

end
